theory Spec2Isabelle
  imports Main "HOL-Library.Sublist"
begin

section \<open>Strings of the JavaScript runtime\<close>

text \<open>
  A JavaScript string is a sequence of UTF-16 code units. The code compares, searches and
  copies code units and does no arithmetic on them, so a code unit is a natural number
  (below 65536 in every string the runtime builds) and a string is a list of them.
  ASCII text is written through \<open>ascii\<close>; other characters by their code unit.
\<close>

type_synonym jschar = nat
type_synonym jsstring = "jschar list"

definition ascii :: "string \<Rightarrow> jsstring" where
  "ascii = map of_char"

definition NL :: jschar where "NL = 10"
definition STAR :: jschar where "STAR = 42"
definition DASH :: jschar where "DASH = 45"
definition DOT :: jschar where "DOT = 46"
definition UNDERSCORE :: jschar where "UNDERSCORE = 95"
definition BACKTICK :: jschar where "BACKTICK = 96"

text \<open>The regular expression classes \<open>.\<close>, \<open>\s\<close> and \<open>\d\<close> of ECMAScript (no \<open>s\<close>, \<open>u\<close>
  or \<open>m\<close> flag is used anywhere in the code); \<open>String.prototype.trim\<close> strips the same
  set as \<open>\s\<close>.\<close>

definition isLineTerminator :: "jschar \<Rightarrow> bool" where
  "isLineTerminator c = (c = 10 \<or> c = 13 \<or> c = 8232 \<or> c = 8233)"

definition isWhiteSpace :: "jschar \<Rightarrow> bool" where
  "isWhiteSpace c =
     (c = 9 \<or> c = 11 \<or> c = 12 \<or> c = 32 \<or> c = 160 \<or> c = 5760 \<or> (8192 \<le> c \<and> c \<le> 8202)
      \<or> c = 8239 \<or> c = 8287 \<or> c = 12288 \<or> c = 65279 \<or> isLineTerminator c)"

definition isDigit :: "jschar \<Rightarrow> bool" where
  "isDigit c = (48 \<le> c \<and> c \<le> 57)"

definition trim :: "jsstring \<Rightarrow> jsstring" where
  "trim s = rev (dropWhile isWhiteSpace (rev (dropWhile isWhiteSpace s)))"

definition startsWith :: "jsstring \<Rightarrow> jsstring \<Rightarrow> bool" where
  "startsWith s p = prefix p s"

text \<open>\<open>s.includes(k)\<close>: \<open>k\<close> occurs in \<open>s\<close> as a contiguous run.\<close>

fun js_includes :: "jsstring \<Rightarrow> jsstring \<Rightarrow> bool" where
  "js_includes [] k = (k = [])"
| "js_includes (c # cs) k = (prefix k (c # cs) \<or> js_includes cs k)"

text \<open>\<open>text.split('\n')\<close>: always at least one line.\<close>

fun split_nl :: "jsstring \<Rightarrow> jsstring list" where
  "split_nl [] = [[]]"
| "split_nl (c # cs) =
     (if c = NL then [] # split_nl cs
      else (case split_nl cs of l # ls \<Rightarrow> (c # l) # ls | [] \<Rightarrow> [[c]]))"

section \<open>The Markdown renderer of the chat interface\<close>

subsection \<open>Regular expressions of \<open>renderMarkdown\<close>\<close>

text \<open>
  A lazy group \<open>(.*?)\<close> or \<open>([\s\S]*?)\<close> followed by a literal closer \<open>d\<close>: the shortest
  run of characters of the group's class \<open>cls\<close> after which \<open>d\<close> stands. The result is the
  captured group.
\<close>

fun lazyUntil :: "(jschar \<Rightarrow> bool) \<Rightarrow> jsstring \<Rightarrow> jsstring \<Rightarrow> jsstring option" where
  "lazyUntil cls d [] = (if d = [] then Some [] else None)"
| "lazyUntil cls d (c # cs) =
     (if prefix d (c # cs) then Some []
      else if \<not> cls c then None
      else map_option ((#) c) (lazyUntil cls d cs))"

definition dot :: "jschar \<Rightarrow> bool" where
  "dot c = (\<not> isLineTerminator c)"

text \<open>One alternative \<open>d(.*?)d\<close> tried at the start of \<open>s\<close>.\<close>

definition delimitedAt :: "jsstring \<Rightarrow> jsstring \<Rightarrow> jsstring option" where
  "delimitedAt d s = (if prefix d s then lazyUntil dot d (drop (length d) s) else None)"

text \<open>A match at the start of \<open>s\<close> is the captured group and the length of the whole match.
  The first alternative of a regular expression is tried first.\<close>

type_synonym matcher = "jsstring \<Rightarrow> (jsstring \<times> nat) option"

definition alternatives :: "jsstring \<Rightarrow> jsstring \<Rightarrow> matcher" where
  "alternatives d1 d2 s =
     (case delimitedAt d1 s of
        Some g \<Rightarrow> Some (g, length g + 2 * length d1)
      | None \<Rightarrow>
          (case delimitedAt d2 s of
             Some g \<Rightarrow> Some (g, length g + 2 * length d2)
           | None \<Rightarrow> None))"

text \<open>\<^verbatim>\<open>/\*\*(.*?)\*\*|__(.*?)__/\<close>\<close>

definition boldAt :: matcher where
  "boldAt = alternatives [STAR, STAR] [UNDERSCORE, UNDERSCORE]"

text \<open>\<^verbatim>\<open>/\*(.*?)\*|_(.*?)_/\<close>\<close>

definition italicAt :: matcher where
  "italicAt = alternatives [STAR] [UNDERSCORE]"

text \<open>\<^verbatim>\<open>/`([^`]+)`/\<close>: a backtick, at least one character that is no backtick (the greedy
  class takes them all, line terminators too), and a backtick.\<close>

definition codeAt :: matcher where
  "codeAt s =
     (case s of
        [] \<Rightarrow> None
      | c # cs \<Rightarrow>
          (let g = takeWhile (\<lambda>x. x \<noteq> BACKTICK) cs in
           if c = BACKTICK \<and> g \<noteq> [] \<and> length g < length cs then Some (g, length g + 2)
           else None))"

text \<open>
  \<open>s.replace(re, template)\<close> with the \<open>g\<close> flag: the string is scanned from the left; at a
  position outside the previous match the expression is tried, a match is replaced by the
  template around its group and the scan goes on behind the match, and a character at which
  nothing matches is copied. \<open>skip\<close> counts the characters of the current match still to pass.
  Every match of the three expressions is at least two characters long.
\<close>

fun replaceAll :: "matcher \<Rightarrow> (jsstring \<Rightarrow> jsstring) \<Rightarrow> nat \<Rightarrow> jsstring \<Rightarrow> jsstring" where
  "replaceAll m f skip [] = []"
| "replaceAll m f skip (c # cs) =
     (if 0 < skip then replaceAll m f (skip - 1) cs
      else (case m (c # cs) of
              Some (g, len) \<Rightarrow> f g @ replaceAll m f (len - 1) cs
            | None \<Rightarrow> c # replaceAll m f 0 cs))"

definition STRONG :: "jsstring \<Rightarrow> jsstring" where
  "STRONG g = ascii ''<strong>'' @ g @ ascii ''</strong>''"

definition EM :: "jsstring \<Rightarrow> jsstring" where
  "EM g = ascii ''<em>'' @ g @ ascii ''</em>''"

definition CODE :: "jsstring \<Rightarrow> jsstring" where
  \<open>CODE g = ascii ''<code class="bg-gem-mist/50 px-1 py-0.5 rounded-sm font-mono text-sm">'' @ g
     @ ascii ''</code>''\<close>

text \<open>The three replacements of a line, in the order of the code.\<close>

definition inline :: "jsstring \<Rightarrow> jsstring" where
  "inline line = replaceAll codeAt CODE 0 (replaceAll italicAt EM 0 (replaceAll boldAt STRONG 0 line))"

text \<open>\<^verbatim>\<open>line.match(/^\s*\d+\.\s(.*)/)\<close>: \<open>None\<close> is \<open>null\<close>, otherwise the group. White space,
  digits and the dot are disjoint, so the greedy runs never give a character back.\<close>

definition restOfLine :: "jsstring \<Rightarrow> jsstring" where
  "restOfLine s = takeWhile dot s"

definition isOl :: "jsstring \<Rightarrow> jsstring option" where
  "isOl line =
     (let r = dropWhile isWhiteSpace line in
      if takeWhile isDigit r = [] then None
      else (case dropWhile isDigit r of
              d # w # rest \<Rightarrow> if d = DOT \<and> isWhiteSpace w then Some (restOfLine rest) else None
            | _ \<Rightarrow> None))"

text \<open>\<^verbatim>\<open>line.match(/^\s*[\*\-]\s(.*)/)\<close>\<close>

definition isUl :: "jsstring \<Rightarrow> jsstring option" where
  "isUl line =
     (case dropWhile isWhiteSpace line of
        b # w # rest \<Rightarrow>
          if (b = STAR \<or> b = DASH) \<and> isWhiteSpace w then Some (restOfLine rest) else None
      | _ \<Rightarrow> None)"

subsection \<open>The line loop\<close>

datatype listKind = Ul | Ol

definition tagName :: "listKind \<Rightarrow> jsstring" where
  "tagName k = (case k of Ul \<Rightarrow> ascii ''ul'' | Ol \<Rightarrow> ascii ''ol'')"

text \<open>The three local variables of \<open>renderMarkdown\<close> that the loop and the two flush
  functions share.\<close>

record renderState =
  html :: jsstring
  listType :: "listKind option"
  paraBuffer :: jsstring

definition P_OPEN :: jsstring where
  \<open>P_OPEN = ascii ''<p class="my-2">''\<close>

definition P_CLOSE :: jsstring where
  "P_CLOSE = ascii ''</p>''"

definition BR :: jsstring where
  "BR = ascii ''<br/>''"

definition H1_OPEN :: jsstring where
  \<open>H1_OPEN = ascii ''<h1 class="text-xl font-bold text-clinic-orange mt-4 mb-2 border-b border-clinic-orange/20 pb-1">''\<close>

definition H2_OPEN :: jsstring where
  \<open>H2_OPEN = ascii ''<h2 class="text-lg font-bold text-clinic-blue mt-3 mb-2">''\<close>

definition OL_OPEN :: jsstring where
  \<open>OL_OPEN = ascii ''<ol class="list-decimal list-inside my-2 pl-5 space-y-1">''\<close>

definition UL_OPEN :: jsstring where
  \<open>UL_OPEN = ascii ''<ul class="list-none my-2 pl-2 space-y-1">''\<close>

definition UL_ITEM :: "jsstring \<Rightarrow> jsstring" where
  \<open>UL_ITEM item =
     ascii ''<li class="flex items-start"><span class="mr-2 text-clinic-orange font-bold text-lg leading-none">''
     @ [8226] @ ascii ''</span><span>'' @ item @ ascii ''</span></li>''\<close>

definition flushPara :: "renderState \<Rightarrow> renderState" where
  "flushPara st =
     (if paraBuffer st \<noteq> []
      then st\<lparr>html := html st @ P_OPEN @ paraBuffer st @ P_CLOSE, paraBuffer := []\<rparr>
      else st)"

definition flushList :: "renderState \<Rightarrow> renderState" where
  "flushList st =
     (case listType st of
        Some k \<Rightarrow> st\<lparr>html := html st @ ascii ''</'' @ tagName k @ ascii ''>'', listType := None\<rparr>
      | None \<Rightarrow> st)"

definition emit :: "jsstring \<Rightarrow> renderState \<Rightarrow> renderState" where
  "emit s st = st\<lparr>html := html st @ s\<rparr>"

text \<open>One pass of the body of \<open>for (const rawLine of lines)\<close>.\<close>

definition renderLine :: "renderState \<Rightarrow> jsstring \<Rightarrow> renderState" where
  "renderLine st rawLine =
     (if startsWith rawLine (ascii ''# '') then
        emit (H1_OPEN @ drop 2 rawLine @ ascii ''</h1>'') (flushList (flushPara st))
      else if startsWith rawLine (ascii ''## '') then
        emit (H2_OPEN @ drop 3 rawLine @ ascii ''</h2>'') (flushList (flushPara st))
      else
        (let line = inline rawLine in
         case isOl line of
           Some item \<Rightarrow>
             (let st1 = flushPara st;
                  st2 = (if listType st1 \<noteq> Some Ol
                         then (emit OL_OPEN (flushList st1))\<lparr>listType := Some Ol\<rparr>
                         else st1)
              in emit (ascii ''<li>'' @ item @ ascii ''</li>'') st2)
         | None \<Rightarrow>
             (case isUl line of
                Some item \<Rightarrow>
                  (let st1 = flushPara st;
                       st2 = (if listType st1 \<noteq> Some Ul
                              then (emit UL_OPEN (flushList st1))\<lparr>listType := Some Ul\<rparr>
                              else st1)
                   in emit (UL_ITEM item) st2)
              | None \<Rightarrow>
                  (let st1 = flushList st in
                   if trim line = [] then flushPara st1
                   else st1\<lparr>paraBuffer :=
                          paraBuffer st1 @ (if paraBuffer st1 \<noteq> [] then BR else []) @ line\<rparr>))))"

definition initialRender :: renderState where
  "initialRender = \<lparr>html = [], listType = None, paraBuffer = []\<rparr>"

text \<open>\<open>renderMarkdown(text).__html\<close>. The only falsy value of type \<open>string\<close> is the empty
  string. The function has no \<open>throw\<close> and calls nothing that can throw on a string, so its
  model has no error result.\<close>

definition renderMarkdown :: "jsstring \<Rightarrow> jsstring" where
  "renderMarkdown text =
     (if text = [] then []
      else html (flushList (flushPara (foldl renderLine initialRender (split_nl text)))))"

section \<open>The Gemini service module\<close>

subsection \<open>Values of the runtime and of the remote gateway\<close>

text \<open>A value that is thrown and caught: an \<open>Error\<close> object with its message, or any other
  value, of which the code reads the truthiness and \<open>String(err)\<close>.\<close>

datatype thrown = JsError jsstring | Other bool jsstring

definition errorText :: "thrown \<Rightarrow> jsstring" where
  "errorText err = (case err of JsError m \<Rightarrow> m | Other t s \<Rightarrow> s)"

definition isTruthy :: "thrown \<Rightarrow> bool" where
  "isTruthy err = (case err of JsError m \<Rightarrow> True | Other t s \<Rightarrow> t)"

text \<open>An \<open>async\<close> function has resolved, has rejected with a value, or is still waiting
  in its polling loop when the observation ends.\<close>

datatype completion = Resolved | Rejected thrown | Pending

typedecl jsnumber

text \<open>A parsed JSON value; the code only asks whether it is an array and which of its
  elements are strings.\<close>

datatype json =
  JNull | JBool bool | JNumber jsnumber | JString jsstring | JArray "json list"
  | JObject "(jsstring \<times> json) list"

record File =
  name :: jsstring
  content :: "nat list"

text \<open>A grounding chunk, of which only \<open>retrievedContext?.text\<close> is read.\<close>

type_synonym GroundingChunk = "jsstring option"

record GenerateContentParameters =
  model :: jsstring
  contents :: jsstring
  systemInstruction :: "jsstring option"
  fileSearchStoreNames :: "jsstring list"
  responseMimeType :: "jsstring option"

text \<open>\<open>response.text\<close> and \<open>response.candidates?.[0]?.groundingMetadata?.groundingChunks\<close>,
  either of which may be undefined.\<close>

record GenerateContentResponse =
  responseText :: "jsstring option"
  responseChunks :: "GroundingChunk list option"

record QueryResult =
  resultText :: "jsstring option"
  groundingChunks :: "GroundingChunk list"
  isCrisis :: bool

record UploadProgress =
  current :: nat
  total :: nat
  message :: "jsstring option"
  fileName :: "jsstring option"

text \<open>What the session does that can be observed from outside, in the order in which it
  happens: the requests sent to the remote gateway, the values passed to
  \<open>setUploadProgress\<close>, and the messages of \<open>console.error\<close>.\<close>

datatype call =
  FileSearchStoresCreate jsstring
  | UploadToFileSearchStore jsstring File
  | OperationsGet jsstring File
  | GenerateContent GenerateContentParameters
  | FileSearchStoresDelete jsstring

datatype event = Remote call | SetUploadProgress "UploadProgress option" | ConsoleError jsstring

text \<open>
  The surroundings of a handler run: the built-in functions \<open>toLowerCase\<close> and
  \<open>JSON.parse\<close> (\<open>None\<close> is a \<open>SyntaxError\<close>), the clock, the constructor of the client, and
  the answers of the remote gateway and of the \<open>window.aistudio\<close> object (\<open>None\<close>: the
  function is absent). A remote answer may depend on everything that has happened before
  the request. \<open>patience\<close> bounds the status checks of one upload that are observed; an
  operation that is not done by then leaves the handler \<open>Pending\<close>.
\<close>

record env =
  toLowerCase :: "jsstring \<Rightarrow> jsstring"
  JSON_parse :: "jsstring \<Rightarrow> json option"
  dateNow :: nat
  newGoogleGenAI :: "thrown option"
  fileSearchStoresCreate :: "event list \<Rightarrow> jsstring \<Rightarrow> thrown + jsstring option"
  uploadToFileSearchStore :: "event list \<Rightarrow> jsstring \<Rightarrow> File \<Rightarrow> thrown + bool"
  operationsGet :: "event list \<Rightarrow> jsstring \<Rightarrow> File \<Rightarrow> thrown + bool"
  generateContent :: "event list \<Rightarrow> GenerateContentParameters \<Rightarrow> thrown + GenerateContentResponse"
  fileSearchStoresDelete :: "event list \<Rightarrow> jsstring \<Rightarrow> thrown option"
  hasSelectedApiKey :: "(thrown + bool) option"
  openSelectKey :: "thrown option option"
  patience :: nat

subsection \<open>The state of the application\<close>

datatype AppStatus = Initializing | Welcome | Uploading | Binding | Chatting | Error

datatype Role = User | Model

text \<open>A chat message: \<open>role\<close>, \<open>parts[0].text\<close>, and the two optional fields.\<close>

record ChatMessage =
  role :: Role
  partText :: "jsstring option"
  messageChunks :: "GroundingChunk list option"
  messageIsCrisis :: "bool option"

text \<open>The \<open>useState\<close> cells of \<open>App\<close>.\<close>

record App =
  status :: AppStatus
  isApiKeySelected :: bool
  apiKeyError :: "jsstring option"
  error :: "jsstring option"
  uploadProgress :: "UploadProgress option"
  activeRagStoreName :: "jsstring option"
  chatHistory :: "ChatMessage list"
  isQueryLoading :: bool
  exampleQuestions :: "jsstring list"
  documentName :: jsstring
  files :: "File list"
  patientName :: jsstring

text \<open>The cells of \<open>App\<close>, the module variable \<open>ai\<close> of the service (set or not), and what
  has been observed so far.\<close>

record world =
  app :: App
  ai :: bool
  trace :: "event list"

definition remote :: "call \<Rightarrow> world \<Rightarrow> world" where
  "remote c w = w\<lparr>trace := trace w @ [Remote c]\<rparr>"

definition consoleError :: "jsstring \<Rightarrow> world \<Rightarrow> world" where
  "consoleError m w = w\<lparr>trace := trace w @ [ConsoleError m]\<rparr>"

subsection \<open>Constants of the service\<close>

definition CRISIS_KEYWORDS :: "jsstring list" where
  "CRISIS_KEYWORDS =
     [[24819, 27515],
      [33258, 27578],
      ascii ''suicide'',
      ascii ''hurt myself'',
      [32085, 26395],
      [19981, 24819, 27963],
      [32080, 26463, 29983, 21629],
      [30171, 33510],
      [25214, 19981, 21040, 20986, 21475]]"

definition CRISIS_DETECTED :: jsstring where
  "CRISIS_DETECTED = ascii ''CRISIS_DETECTED''"

definition GEMINI_MODEL :: jsstring where
  "GEMINI_MODEL = ascii ''gemini-2.5-flash''"

definition NOT_INITIALIZED :: thrown where
  "NOT_INITIALIZED = JsError (ascii ''Gemini AI not initialized'')"

definition NAME_MISSING :: thrown where
  "NAME_MISSING = JsError (ascii ''Failed to create RAG store: name is missing.'')"

definition DEFAULT_QUESTIONS_4 :: "jsstring list" where
  "DEFAULT_QUESTIONS_4 =
     [[35386, 25152, 30340, 29151, 26989, 26178, 38291, 26159, 24190, 40670, 65311],
      [35531, 21839, 35442, 22914, 20309, 38928, 32004, 65311],
      [31532, 19968, 27425, 30475, 35386, 38656, 35201, 28310, 20633, 20160, 40636, 65311],
      [35386, 25152, 26377, 20581, 20445, 21966, 65311]]"

definition DEFAULT_QUESTIONS_2 :: "jsstring list" where
  "DEFAULT_QUESTIONS_2 =
     [[35386, 25152, 30340, 29151, 26989, 26178, 38291, 26159, 24190, 40670, 65311],
      [35531, 21839, 35442, 22914, 20309, 38928, 32004, 65311]]"

definition MSG_QUESTIONS_FAILED :: jsstring where
  "MSG_QUESTIONS_FAILED = ascii ''Failed to generate or parse example questions:''"

text \<open>The system instruction of \<open>fileSearch\<close> and the prompt of \<open>generateExampleQuestions\<close>, as UTF-16 code units.\<close>

definition SYSTEM_INSTRUCTION :: jsstring where
  "SYSTEM_INSTRUCTION =
     [20320, 26159, 19968, 38291, 36523, 24515, 31185, 35386, 25152, 30340, 28331, 26262,
     12289, 20855, 21516, 29702, 24515, 30340, 32, 65, 73, 32, 21161, 29702, 12290, 35531,
     21209, 24517, 20351, 29992, 32321, 39636, 20013, 25991, 32, 40, 84, 114, 97, 100, 105,
     116, 105, 111, 110, 97, 108, 32, 67, 104, 105, 110, 101, 115, 101, 41, 32, 22238, 31572,
     12290, 22238, 31572, 35531, 31777, 28500, 12290, 22914, 26524, 26159, 37291, 30274, 24314,
     35696, 65292, 35531, 21152, 19978, 27161, 28310, 20813, 36012, 32882, 26126, 65306, 12300,
     35531, 35242, 33258, 35566, 35426, 37291, 24107, 12301, 12290, 19981, 35201, 25552, 21450,
     20320, 26159, 32, 65, 73, 65292, 23560, 27880, 26044, 25552, 20379, 21332, 21161, 12290,
     35531, 20351, 29992, 32, 77, 97, 114, 107, 100, 111, 119, 110, 32, 26684, 24335, 22238,
     31572, 65306, 10, 10, 45, 32, 20351, 29992, 32, 35, 32, 25110, 32, 35, 35, 32, 27161,
     31034, 37325, 40670, 27161, 38988, 65288, 26371, 36681, 25563, 28858, 37266, 30446, 30340,
     38991, 33394, 65289, 12290, 10, 45, 32, 20351, 29992, 28165, 21934, 38917, 30446, 65288,
     45, 32, 25110, 32, 42, 65289, 26781, 21015, 36039, 35338, 12290]"

definition QUESTIONS_PROMPT :: jsstring where
  "QUESTIONS_PROMPT =
     [26681, 25818, 25552, 20379, 30340, 35386, 25152, 25991, 20214, 65288, 25163, 20874,
     12289, 70, 65, 81, 12289, 25919, 31574, 65289, 65292, 25214, 20986, 30456, 38364, 35486,
     22659, 20006, 29983, 25104, 32, 52, 32, 20491, 30149, 24739, 21487, 33021, 26371, 21839,
     30340, 36890, 29992, 12289, 28331, 26262, 19988, 26377, 24171, 21161, 30340, 21839, 38988,
     65288, 20363, 22914, 65306, 12300, 22914, 20309, 38928, 32004, 65311, 12301, 12289, 12300,
     29151, 26989, 26178, 38291, 28858, 20309, 65311, 12301, 12289, 12300, 25105, 30340, 36039,
     26009, 38577, 31169, 23433, 20840, 21966, 65311, 12301, 65289, 12290, 35531, 21209, 24517,
     20351, 29992, 32321, 39636, 20013, 25991, 32, 40, 84, 114, 97, 100, 105, 116, 105, 111,
     110, 97, 108, 32, 67, 104, 105, 110, 101, 115, 101, 41, 32, 22238, 20659, 12290, 26684,
     24335, 28858, 32, 74, 83, 79, 78, 32, 23383, 20018, 38499, 21015, 12290]"

subsection \<open>The functions of the service\<close>

definition initialize :: "env \<Rightarrow> world \<Rightarrow> world \<times> thrown option" where
  "initialize env w =
     (case newGoogleGenAI env of
        Some e \<Rightarrow> (w, Some e)
      | None \<Rightarrow> (w\<lparr>ai := True\<rparr>, None))"

definition createRagStore :: "env \<Rightarrow> jsstring \<Rightarrow> world \<Rightarrow> world \<times> (thrown + jsstring)" where
  "createRagStore env displayName w =
     (if \<not> ai w then (w, Inl NOT_INITIALIZED)
      else
        (let w1 = remote (FileSearchStoresCreate displayName) w in
         case fileSearchStoresCreate env (trace w) displayName of
           Inl e \<Rightarrow> (w1, Inl e)
         | Inr None \<Rightarrow> (w1, Inl NAME_MISSING)
         | Inr (Some n) \<Rightarrow> (w1, if n = [] then Inl NAME_MISSING else Inr n)))"

text \<open>\<open>while (!op.done) { await delay(3000); op = await ai.operations.get({operation: op}); }\<close>
  with the number of status checks still observed.\<close>

fun pollOperation :: "env \<Rightarrow> jsstring \<Rightarrow> File \<Rightarrow> nat \<Rightarrow> bool \<Rightarrow> world \<Rightarrow> world \<times> completion" where
  "pollOperation env store file fuel True w = (w, Resolved)"
| "pollOperation env store file 0 False w = (w, Pending)"
| "pollOperation env store file (Suc fuel) False w =
     (let w1 = remote (OperationsGet store file) w in
      case operationsGet env (trace w) store file of
        Inl e \<Rightarrow> (w1, Rejected e)
      | Inr done \<Rightarrow> pollOperation env store file fuel done w1)"

definition uploadToRagStore :: "env \<Rightarrow> jsstring \<Rightarrow> File \<Rightarrow> world \<Rightarrow> world \<times> completion" where
  "uploadToRagStore env ragStoreName file w =
     (if \<not> ai w then (w, Rejected NOT_INITIALIZED)
      else
        (let w1 = remote (UploadToFileSearchStore ragStoreName file) w in
         case uploadToFileSearchStore env (trace w) ragStoreName file of
           Inl e \<Rightarrow> (w1, Rejected e)
         | Inr done \<Rightarrow> pollOperation env ragStoreName file (patience env) done w1))"

definition queryParameters :: "jsstring \<Rightarrow> jsstring \<Rightarrow> GenerateContentParameters" where
  "queryParameters ragStoreName query =
     \<lparr>model = GEMINI_MODEL, contents = query, systemInstruction = Some SYSTEM_INSTRUCTION,
      fileSearchStoreNames = [ragStoreName], responseMimeType = None\<rparr>"

definition fileSearch :: "env \<Rightarrow> jsstring \<Rightarrow> jsstring \<Rightarrow> world \<Rightarrow> world \<times> (thrown + QueryResult)" where
  "fileSearch env ragStoreName query w =
     (if \<not> ai w then (w, Inl NOT_INITIALIZED)
      else
        (let lowerQuery = toLowerCase env query in
         if list_ex (\<lambda>keyword. js_includes lowerQuery keyword) CRISIS_KEYWORDS
         then (w, Inr \<lparr>resultText = Some CRISIS_DETECTED, groundingChunks = [], isCrisis = True\<rparr>)
         else
           (let w1 = remote (GenerateContent (queryParameters ragStoreName query)) w in
            case generateContent env (trace w) (queryParameters ragStoreName query) of
              Inl e \<Rightarrow> (w1, Inl e)
            | Inr response \<Rightarrow>
                (w1, Inr \<lparr>resultText = responseText response,
                          groundingChunks =
                            (case responseChunks response of Some cs \<Rightarrow> cs | None \<Rightarrow> []),
                          isCrisis = False\<rparr>))))"

definition questionsParameters :: "jsstring \<Rightarrow> GenerateContentParameters" where
  "questionsParameters ragStoreName =
     \<lparr>model = GEMINI_MODEL, contents = QUESTIONS_PROMPT, systemInstruction = None,
      fileSearchStoreNames = [ragStoreName],
      responseMimeType = Some (ascii ''application/json'')\<rparr>"

text \<open>\<^verbatim>\<open>jsonText.match(/```json\n([\s\S]*?)\n```/)\<close>: the expression is tried at every
  position from the left; the result is the group of the first match.\<close>

definition FENCE_OPEN :: jsstring where
  "FENCE_OPEN = [96, 96, 96] @ ascii ''json'' @ [10]"

definition FENCE_CLOSE :: jsstring where
  "FENCE_CLOSE = [10, 96, 96, 96]"

definition fencedAt :: "jsstring \<Rightarrow> jsstring option" where
  "fencedAt s =
     (if prefix FENCE_OPEN s then lazyUntil (\<lambda>c. True) FENCE_CLOSE (drop (length FENCE_OPEN) s)
      else None)"

fun firstMatch :: "(jsstring \<Rightarrow> jsstring option) \<Rightarrow> jsstring \<Rightarrow> jsstring option" where
  "firstMatch m [] = m []"
| "firstMatch m (c # cs) = (case m (c # cs) of Some g \<Rightarrow> Some g | None \<Rightarrow> firstMatch m cs)"

text \<open>\<open>parsedData.filter(q => typeof q === 'string')\<close>\<close>

fun stringsOf :: "json list \<Rightarrow> jsstring list" where
  "stringsOf [] = []"
| "stringsOf (JString s # js) = s # stringsOf js"
| "stringsOf (j # js) = stringsOf js"

text \<open>The part of \<open>generateExampleQuestions\<close> after a value has been parsed.\<close>

definition questionsOf :: "json \<Rightarrow> jsstring list" where
  "questionsOf parsedData =
     (case parsedData of
        JArray xs \<Rightarrow> take 4 (stringsOf xs)
      | _ \<Rightarrow> DEFAULT_QUESTIONS_4)"

text \<open>The outer \<open>catch\<close>: the failure is written to the console and two questions are
  returned.\<close>

definition questionsFailed :: "world \<Rightarrow> world \<times> (thrown + jsstring list)" where
  "questionsFailed w = (consoleError MSG_QUESTIONS_FAILED w, Inr DEFAULT_QUESTIONS_2)"

definition generateExampleQuestions ::
    "env \<Rightarrow> jsstring \<Rightarrow> world \<Rightarrow> world \<times> (thrown + jsstring list)" where
  "generateExampleQuestions env ragStoreName w =
     (if \<not> ai w then (w, Inl NOT_INITIALIZED)
      else
        (let w1 = remote (GenerateContent (questionsParameters ragStoreName)) w in
         case generateContent env (trace w) (questionsParameters ragStoreName) of
           Inl e \<Rightarrow> questionsFailed w1
         | Inr response \<Rightarrow>
             (case responseText response of
                None \<Rightarrow> questionsFailed w1
              | Some t \<Rightarrow>
                  (let jsonText = trim t in
                   case JSON_parse env jsonText of
                     Some parsedData \<Rightarrow> (w1, Inr (questionsOf parsedData))
                   | None \<Rightarrow>
                       (case firstMatch fencedAt jsonText of
                          None \<Rightarrow> (w1, Inr DEFAULT_QUESTIONS_4)
                        | Some g \<Rightarrow>
                            if g = [] then (w1, Inr DEFAULT_QUESTIONS_4)
                            else
                              (case JSON_parse env g of
                                 Some parsedData \<Rightarrow> (w1, Inr (questionsOf parsedData))
                               | None \<Rightarrow> questionsFailed w1))))))"

definition deleteRagStore :: "env \<Rightarrow> jsstring \<Rightarrow> world \<Rightarrow> world \<times> thrown option" where
  "deleteRagStore env ragStoreName w =
     (if \<not> ai w then (w, Some NOT_INITIALIZED)
      else (remote (FileSearchStoresDelete ragStoreName) w,
            fileSearchStoresDelete env (trace w) ragStoreName))"

section \<open>The application\<close>

subsection \<open>Texts shown to the user\<close>

definition MSG_SELECT_KEY :: jsstring where
  "MSG_SELECT_KEY =
     [35531, 20808, 36984, 25799, 24744, 30340] @ ascii '' Gemini API Key'' @ [12290]"

definition MSG_INIT_FAILED :: jsstring where
  "MSG_INIT_FAILED =
     [21021, 22987, 21270, 22833, 25943, 65292, 35531, 36984, 25799, 26377, 25928, 30340] @ ascii '' API Key'' @ [12290]"

definition MSG_INITIALIZING_DB :: jsstring where
  "MSG_INITIALIZING_DB =
     [27491, 22312, 21021, 22987, 21270, 35386, 25152, 36039, 26009, 24235] @ ascii ''...''"

definition MSG_PROCESSING :: jsstring where
  "MSG_PROCESSING =
     [27491, 22312, 34389, 29702, 30693, 35672, 24235] @ ascii ''...''"

definition MSG_IMPORTING :: jsstring where
  "MSG_IMPORTING = [27491, 22312, 21295, 20837, 25991, 20214] @ ascii ''...''"

definition MSG_GENERATING :: jsstring where
  "MSG_GENERATING =
     [27491, 22312, 29983, 25104, 24314, 35696, 21839, 38988] @ ascii ''...''"

definition MSG_READY :: jsstring where
  "MSG_READY = [31995, 32113, 28310, 20633, 23601, 32210]"

definition DOC_ASSISTANT :: jsstring where
  "DOC_ASSISTANT = [35386, 25152] @ ascii '' AI '' @ [21161, 29702]"

definition DOC_KNOWLEDGE_BASE :: jsstring where
  "DOC_KNOWLEDGE_BASE = [35386, 25152, 30693, 35672, 24235]"

definition MSG_KEY_INVALID :: jsstring where
  "MSG_KEY_INVALID =
     [36984, 25799, 30340] @ ascii '' API Key '' @ [28961, 25928, 65292, 35531, 37325, 26032, 36984, 25799, 12290]"

definition MSG_START_FAILED :: jsstring where
  "MSG_START_FAILED = [21855, 21205, 26371, 35441, 22833, 25943]"

definition MSG_APOLOGY :: jsstring where
  "MSG_APOLOGY =
     [25265, 27465, 65292, 30332, 29983, 37679, 35492, 65292, 35531, 37325, 35430, 12290]"

definition MSG_QUERY_FAILED :: jsstring where
  "MSG_QUERY_FAILED = [21462, 24471, 22238, 25033, 22833, 25943]"

definition WELCOME_HEAD :: jsstring where
  "WELCOME_HEAD = ascii ''# '' @ [27489, 36814, 22238, 20358, 65292]"

definition WELCOME_TAIL :: jsstring where
  "WELCOME_TAIL =
     ascii '' '' @ [10, 10, 20170, 22825, 26377, 20160, 40636, 25105, 21487, 20197, 24171, 24744, 30340, 21966, 65311, 24744, 21487, 20197, 35426, 21839, 65306, 10, 10] @ ascii ''- '' @ [38272, 35386, 26178, 38291, 10] @ ascii ''- '' @ [38928, 32004, 25499, 34399, 10] @ ascii ''- '' @ [37291, 24107, 20171, 32057]"

definition MSG_KEY_REQUIRED :: thrown where
  "MSG_KEY_REQUIRED = JsError (ascii ''API Key is required.'')"

definition MSG_CHECK_KEY_FAILED :: jsstring where
  "MSG_CHECK_KEY_FAILED = ascii ''Error checking for API key:''"

definition MSG_OPEN_KEY_FAILED :: jsstring where
  "MSG_OPEN_KEY_FAILED = ascii ''Failed to open API key selection dialog''"

definition MSG_DELETE_FAILED :: jsstring where
  "MSG_DELETE_FAILED = ascii ''Failed to delete RAG store in background''"

text \<open>A number in a template string: its decimal digits.\<close>

fun decimal :: "nat \<Rightarrow> jsstring" where
  "decimal n = (if n < 10 then [48 + n] else decimal (n div 10) @ [48 + n mod 10])"

declare decimal.simps [simp del]

subsection \<open>The state setters\<close>

definition setStatus :: "AppStatus \<Rightarrow> world \<Rightarrow> world" where
  "setStatus v w = w\<lparr>app := (app w)\<lparr>status := v\<rparr>\<rparr>"

definition setIsApiKeySelected :: "bool \<Rightarrow> world \<Rightarrow> world" where
  "setIsApiKeySelected v w = w\<lparr>app := (app w)\<lparr>isApiKeySelected := v\<rparr>\<rparr>"

definition setApiKeyError :: "jsstring option \<Rightarrow> world \<Rightarrow> world" where
  "setApiKeyError v w = w\<lparr>app := (app w)\<lparr>apiKeyError := v\<rparr>\<rparr>"

definition setError :: "jsstring option \<Rightarrow> world \<Rightarrow> world" where
  "setError v w = w\<lparr>app := (app w)\<lparr>error := v\<rparr>\<rparr>"

definition setUploadProgress :: "UploadProgress option \<Rightarrow> world \<Rightarrow> world" where
  "setUploadProgress v w =
     w\<lparr>app := (app w)\<lparr>uploadProgress := v\<rparr>, trace := trace w @ [SetUploadProgress v]\<rparr>"

definition setActiveRagStoreName :: "jsstring option \<Rightarrow> world \<Rightarrow> world" where
  "setActiveRagStoreName v w = w\<lparr>app := (app w)\<lparr>activeRagStoreName := v\<rparr>\<rparr>"

definition setChatHistory :: "ChatMessage list \<Rightarrow> world \<Rightarrow> world" where
  "setChatHistory v w = w\<lparr>app := (app w)\<lparr>chatHistory := v\<rparr>\<rparr>"

definition setIsQueryLoading :: "bool \<Rightarrow> world \<Rightarrow> world" where
  "setIsQueryLoading v w = w\<lparr>app := (app w)\<lparr>isQueryLoading := v\<rparr>\<rparr>"

definition setExampleQuestions :: "jsstring list \<Rightarrow> world \<Rightarrow> world" where
  "setExampleQuestions v w = w\<lparr>app := (app w)\<lparr>exampleQuestions := v\<rparr>\<rparr>"

definition setDocumentName :: "jsstring \<Rightarrow> world \<Rightarrow> world" where
  "setDocumentName v w = w\<lparr>app := (app w)\<lparr>documentName := v\<rparr>\<rparr>"

definition setFiles :: "File list \<Rightarrow> world \<Rightarrow> world" where
  "setFiles v w = w\<lparr>app := (app w)\<lparr>files := v\<rparr>\<rparr>"

definition setPatientName :: "jsstring \<Rightarrow> world \<Rightarrow> world" where
  "setPatientName v w = w\<lparr>app := (app w)\<lparr>patientName := v\<rparr>\<rparr>"

text \<open>A string or \<open>null\<close> in a condition: \<open>null\<close> and the empty string are falsy.\<close>

definition truthyName :: "jsstring option \<Rightarrow> bool" where
  "truthyName v = (case v of None \<Rightarrow> False | Some n \<Rightarrow> n \<noteq> [])"

subsection \<open>The handlers of \<open>App\<close>\<close>

definition initialWorld :: world where
  "initialWorld =
     \<lparr>app = \<lparr>status = Initializing, isApiKeySelected = False, apiKeyError = None, error = None,
             uploadProgress = None, activeRagStoreName = None, chatHistory = [],
             isQueryLoading = False, exampleQuestions = [], documentName = [], files = [],
             patientName = []\<rparr>,
      ai = False, trace = []\<rparr>"

definition checkApiKey :: "env \<Rightarrow> world \<Rightarrow> world" where
  "checkApiKey env w =
     (case hasSelectedApiKey env of
        None \<Rightarrow> w
      | Some (Inr hasKey) \<Rightarrow> setIsApiKeySelected hasKey w
      | Some (Inl e) \<Rightarrow> setIsApiKeySelected False (consoleError MSG_CHECK_KEY_FAILED w))"

text \<open>The effects that run once when \<open>App\<close> is mounted.\<close>

definition mount :: "env \<Rightarrow> world \<Rightarrow> world" where
  "mount env w = setStatus Welcome (checkApiKey env w)"

definition handleError :: "jsstring \<Rightarrow> thrown \<Rightarrow> world \<Rightarrow> world" where
  "handleError msg err w =
     setStatus Error
       (setError (Some (msg @ (if isTruthy err then ascii '': '' @ errorText err else [])))
          (consoleError msg w))"

definition clearError :: "world \<Rightarrow> world" where
  "clearError w = setStatus Welcome (setError None w)"

text \<open>\<open>alert\<close> in the last branch changes nothing that is modelled.\<close>

definition handleSelectKey :: "env \<Rightarrow> world \<Rightarrow> world" where
  "handleSelectKey env w =
     (case openSelectKey env of
        None \<Rightarrow> w
      | Some (Some e) \<Rightarrow> consoleError MSG_OPEN_KEY_FAILED w
      | Some None \<Rightarrow> checkApiKey env w)"

text \<open>
  The loop \<open>for (let i = 0; i < files.length; i++)\<close> of the provisioning sequence, entered
  with the files from index \<open>i\<close> on; \<open>n\<close> is \<open>files.length\<close>. The updater of
  \<open>setUploadProgress\<close> spreads the previous value, which line 144 has set; spreading
  \<open>null\<close> would leave \<open>total\<close> undefined, written 0 here.
\<close>

definition importingProgress :: "UploadProgress option \<Rightarrow> nat \<Rightarrow> nat \<Rightarrow> File \<Rightarrow> UploadProgress" where
  "importingProgress prev i n file =
     (let label = ascii ''('' @ decimal (i + 1) @ ascii ''/'' @ decimal n @ ascii '') '' @ name file in
      case prev of
        Some p \<Rightarrow> p\<lparr>current := i + 1, message := Some MSG_IMPORTING, fileName := Some label\<rparr>
      | None \<Rightarrow> \<lparr>current = i + 1, total = 0, message = Some MSG_IMPORTING, fileName = Some label\<rparr>)"

fun uploadFiles :: "env \<Rightarrow> jsstring \<Rightarrow> nat \<Rightarrow> nat \<Rightarrow> File list \<Rightarrow> world \<Rightarrow> world \<times> completion" where
  "uploadFiles env ragStoreName n i [] w = (w, Resolved)"
| "uploadFiles env ragStoreName n i (file # rest) w =
     (let w1 = setUploadProgress (Some (importingProgress (uploadProgress (app w)) i n file)) w in
      case uploadToRagStore env ragStoreName file w1 of
        (w2, Resolved) \<Rightarrow> uploadFiles env ragStoreName n (i + 1) rest w2
      | (w2, c) \<Rightarrow> (w2, c))"

text \<open>The body of the \<open>try\<close> block of \<open>handleAdminSetupComplete\<close>; \<open>fs\<close> is the value of
  \<open>files\<close> in the closure of the handler. The wait of 500 ms changes nothing that is
  modelled.\<close>

definition provision :: "env \<Rightarrow> File list \<Rightarrow> world \<Rightarrow> world \<times> completion" where
  "provision env fs w =
     (let totalSteps = length fs + 2;
          storeName = ascii ''clinic-session-'' @ decimal (dateNow env)
      in
      case createRagStore env storeName w of
        (w1, Inl e) \<Rightarrow> (w1, Rejected e)
      | (w1, Inr ragStoreName) \<Rightarrow>
          (let w2 = setUploadProgress
                      (Some \<lparr>current = 1, total = totalSteps, message = Some MSG_PROCESSING,
                             fileName = None\<rparr>) w1
           in
           case uploadFiles env ragStoreName (length fs) 0 fs w2 of
             (w3, Resolved) \<Rightarrow>
               (let w4 = setUploadProgress
                           (Some \<lparr>current = length fs + 1, total = totalSteps,
                                  message = Some MSG_GENERATING, fileName = Some []\<rparr>) w3
                in
                case generateExampleQuestions env ragStoreName w4 of
                  (w5, Inl e) \<Rightarrow> (w5, Rejected e)
                | (w5, Inr questions) \<Rightarrow>
                    (let w6 = setUploadProgress
                                (Some \<lparr>current = totalSteps, total = totalSteps,
                                       message = Some MSG_READY, fileName = Some []\<rparr>)
                                (setExampleQuestions questions w5);
                         docName = (if 0 < length fs then DOC_KNOWLEDGE_BASE else DOC_ASSISTANT)
                     in
                     (setFiles []
                        (setStatus Binding
                           (setChatHistory []
                              (setActiveRagStoreName (Some ragStoreName)
                                 (setDocumentName docName w6)))),
                      Resolved)))
           | (w3, c) \<Rightarrow> (w3, c)))"

text \<open>What \<open>handleAdminSetupComplete\<close> does before the \<open>try\<close> block, once the key is
  selected and the client is constructed.\<close>

definition beginUpload :: "File list \<Rightarrow> world \<Rightarrow> world" where
  "beginUpload fs w =
     setUploadProgress
       (Some \<lparr>current = 0, total = length fs + 2, message = Some MSG_INITIALIZING_DB,
              fileName = None\<rparr>)
       (setStatus Uploading w)"

text \<open>The \<open>catch\<close> block: the lower-cased message of the failure decides between the
  return to the welcome screen and the error screen.\<close>

definition isInvalidKey :: "env \<Rightarrow> thrown \<Rightarrow> bool" where
  "isInvalidKey env err =
     (let errorMessage = toLowerCase env (errorText err) in
      js_includes errorMessage (ascii ''api key not valid'')
      \<or> js_includes errorMessage (ascii ''requested entity was not found''))"

definition provisionFailed :: "env \<Rightarrow> thrown \<Rightarrow> world \<Rightarrow> world" where
  "provisionFailed env err w =
     (if isInvalidKey env err
      then setStatus Welcome (setIsApiKeySelected False (setApiKeyError (Some MSG_KEY_INVALID) w))
      else handleError MSG_START_FAILED err w)"

definition handleAdminSetupComplete :: "env \<Rightarrow> world \<Rightarrow> world \<times> completion" where
  "handleAdminSetupComplete env w =
     (if \<not> isApiKeySelected (app w)
      then (setApiKeyError (Some MSG_SELECT_KEY) w, Rejected MSG_KEY_REQUIRED)
      else
        (case initialize env (setApiKeyError None w) of
           (w1, Some err) \<Rightarrow> (handleError MSG_INIT_FAILED err w1, Rejected err)
         | (w1, None) \<Rightarrow>
             (case provision env (files (app w)) (beginUpload (files (app w)) w1) of
                (w2, Resolved) \<Rightarrow> (setUploadProgress None w2, Resolved)
              | (w2, Rejected err) \<Rightarrow>
                  (setUploadProgress None (provisionFailed env err w2), Rejected err)
              | (w2, Pending) \<Rightarrow> (w2, Pending))))"

definition welcomeMessage :: "jsstring \<Rightarrow> ChatMessage" where
  "welcomeMessage patient =
     \<lparr>role = Model, partText = Some (WELCOME_HEAD @ patient @ WELCOME_TAIL),
      messageChunks = None, messageIsCrisis = None\<rparr>"

definition handlePatientLogin :: "jsstring \<Rightarrow> jsstring \<Rightarrow> world \<Rightarrow> world" where
  "handlePatientLogin patient phone w =
     setStatus Chatting (setChatHistory [welcomeMessage patient] (setPatientName patient w))"

definition handleEndChat :: "env \<Rightarrow> world \<Rightarrow> world" where
  "handleEndChat env w =
     (let w1 =
        (case activeRagStoreName (app w) of
           None \<Rightarrow> w
         | Some n \<Rightarrow>
             if n = [] then w
             else
               (case deleteRagStore env n w of
                  (w', None) \<Rightarrow> w'
                | (w', Some err) \<Rightarrow> consoleError MSG_DELETE_FAILED w'))
      in
      setStatus Welcome
        (setFiles []
           (setDocumentName []
              (setExampleQuestions []
                 (setChatHistory [] (setActiveRagStoreName None w1))))))"

definition userMessage :: "jsstring \<Rightarrow> ChatMessage" where
  "userMessage m = \<lparr>role = User, partText = Some m, messageChunks = None, messageIsCrisis = None\<rparr>"

definition modelMessage :: "QueryResult \<Rightarrow> ChatMessage" where
  "modelMessage result =
     \<lparr>role = Model, partText = resultText result, messageChunks = Some (groundingChunks result),
      messageIsCrisis = Some (isCrisis result)\<rparr>"

definition errorMessage :: ChatMessage where
  "errorMessage =
     \<lparr>role = Model, partText = Some MSG_APOLOGY, messageChunks = None, messageIsCrisis = None\<rparr>"

definition appendMessage :: "ChatMessage \<Rightarrow> world \<Rightarrow> world" where
  "appendMessage m w = setChatHistory (chatHistory (app w) @ [m]) w"

definition handleSendMessage :: "env \<Rightarrow> jsstring \<Rightarrow> world \<Rightarrow> world" where
  "handleSendMessage env msg w =
     (case activeRagStoreName (app w) of
        None \<Rightarrow> w
      | Some n \<Rightarrow>
          if n = [] then w
          else
            (let w1 = setIsQueryLoading True (appendMessage (userMessage msg) w) in
             setIsQueryLoading False
               (case fileSearch env n msg w1 of
                  (w2, Inr result) \<Rightarrow> appendMessage (modelMessage result) w2
                | (w2, Inl err) \<Rightarrow> handleError MSG_QUERY_FAILED err (appendMessage errorMessage w2))))"

text \<open>The file list of the welcome screen: files are added at the end (file input, drop)
  and removed by index.\<close>

definition addFiles :: "File list \<Rightarrow> world \<Rightarrow> world" where
  "addFiles fs w = setFiles (files (app w) @ fs) w"

definition handleRemoveFile :: "nat \<Rightarrow> world \<Rightarrow> world" where
  "handleRemoveFile indexToRemove w =
     setFiles (map snd (filter (\<lambda>(index, f). index \<noteq> indexToRemove)
                          (zip [0 ..< length (files (app w))] (files (app w))))) w"

subsection \<open>Reachable states\<close>

text \<open>
  The states between handler runs. \<open>renderContent\<close> shows one screen per status, and a
  handler can be started only from the screen that has its control: the setup and the file
  list from the welcome screen, the login from the binding screen, sending and ending from
  the chat, and the acknowledgement from the error screen. The key check also runs when the
  window regains focus. Each handler runs to its end (or to the status check it waits at)
  before the next starts.
\<close>

inductive reachable :: "world \<Rightarrow> bool" where
  reach_start: "reachable initialWorld"
| reach_mount: "reachable w \<Longrightarrow> status (app w) = Initializing \<Longrightarrow> reachable (mount env w)"
| reach_focus: "reachable w \<Longrightarrow> reachable (checkApiKey env w)"
| reach_selectKey: "reachable w \<Longrightarrow> status (app w) = Welcome \<Longrightarrow> reachable (handleSelectKey env w)"
| reach_addFiles: "reachable w \<Longrightarrow> status (app w) = Welcome \<Longrightarrow> reachable (addFiles fs w)"
| reach_removeFile: "reachable w \<Longrightarrow> status (app w) = Welcome \<Longrightarrow> reachable (handleRemoveFile i w)"
| reach_setup: "reachable w \<Longrightarrow> status (app w) = Welcome
          \<Longrightarrow> reachable (fst (handleAdminSetupComplete env w))"
| reach_login: "reachable w \<Longrightarrow> status (app w) = Binding \<Longrightarrow> reachable (handlePatientLogin patient phone w)"
| reach_send: "reachable w \<Longrightarrow> status (app w) = Chatting \<Longrightarrow> reachable (handleSendMessage env msg w)"
| reach_endChat: "reachable w \<Longrightarrow> status (app w) = Chatting \<Longrightarrow> reachable (handleEndChat env w)"
| reach_clearError: "reachable w \<Longrightarrow> status (app w) = Error \<Longrightarrow> reachable (clearError w)"

section \<open>Notions used in the properties\<close>

subsection \<open>Plain text for the renderer\<close>

definition isHeading :: "jsstring \<Rightarrow> bool" where
  "isHeading l = (startsWith l (ascii ''# '') \<or> startsWith l (ascii ''## ''))"

text \<open>The characters of the inline delimiters: star, underscore and backtick.\<close>

definition hasDelimiter :: "jsstring \<Rightarrow> bool" where
  "hasDelimiter l = (STAR \<in> set l \<or> UNDERSCORE \<in> set l \<or> BACKTICK \<in> set l)"

definition isBlank :: "jsstring \<Rightarrow> bool" where
  "isBlank l = (trim l = [])"

text \<open>A line without Markdown syntax: no heading prefix, no inline delimiter, no list
  pattern; a plain line is moreover not blank.\<close>

definition noSpecialLine :: "jsstring \<Rightarrow> bool" where
  "noSpecialLine l = (\<not> isHeading l \<and> \<not> hasDelimiter l \<and> isOl l = None \<and> isUl l = None)"

definition plainLine :: "jsstring \<Rightarrow> bool" where
  "plainLine l = (noSpecialLine l \<and> \<not> isBlank l)"

definition plainText :: "jsstring \<Rightarrow> bool" where
  "plainText t = list_all plainLine (split_nl t)"

definition noSpecial :: "jsstring \<Rightarrow> bool" where
  "noSpecial t = list_all noSpecialLine (split_nl t)"

text \<open>The input with every line feed replaced by the line-break marker, all other
  characters in place.\<close>

definition brForNewline :: "jsstring \<Rightarrow> jsstring" where
  "brForNewline t = concat (map (\<lambda>c. if c = NL then BR else [c]) t)"

fun joinLines :: "jsstring list \<Rightarrow> jsstring" where
  "joinLines [] = []"
| "joinLines [l] = l"
| "joinLines (l # ls) = l @ BR @ joinLines ls"

text \<open>A line the loop puts into the paragraph buffer as it is.\<close>

definition paragraphLine :: "jsstring \<Rightarrow> bool" where
  "paragraphLine l =
     (\<not> isHeading l \<and> inline l = l \<and> isOl l = None \<and> isUl l = None \<and> \<not> isBlank l)"

text \<open>Markup without a line feed and without a delimiter character, and the states of the
  loop that hold only such markup.\<close>

definition inert :: "jsstring \<Rightarrow> bool" where
  "inert s = (NL \<notin> set s \<and> \<not> hasDelimiter s)"

definition okState :: "renderState \<Rightarrow> bool" where
  "okState st =
     (listType st = None \<and> inert (html st) \<and> inert (paraBuffer st)
      \<and> (html st = [] \<or> hd (html st) = 60))"

subsection \<open>Readings of the trace\<close>

fun uploadCalls :: "event list \<Rightarrow> (jsstring \<times> File) list" where
  "uploadCalls [] = []"
| "uploadCalls (Remote (UploadToFileSearchStore s f) # es) = (s, f) # uploadCalls es"
| "uploadCalls (e # es) = uploadCalls es"

fun deleteCalls :: "event list \<Rightarrow> jsstring list" where
  "deleteCalls [] = []"
| "deleteCalls (Remote (FileSearchStoresDelete s) # es) = s # deleteCalls es"
| "deleteCalls (e # es) = deleteCalls es"

fun generateContentCalls :: "event list \<Rightarrow> GenerateContentParameters list" where
  "generateContentCalls [] = []"
| "generateContentCalls (Remote (GenerateContent p) # es) = p # generateContentCalls es"
| "generateContentCalls (e # es) = generateContentCalls es"

fun progressUpdates :: "event list \<Rightarrow> UploadProgress option list" where
  "progressUpdates [] = []"
| "progressUpdates (SetUploadProgress p # es) = p # progressUpdates es"
| "progressUpdates (e # es) = progressUpdates es"

text \<open>The progress values shown and the files uploaded, in the order of the trace.\<close>

datatype milestone = Shown nat | Uploaded File

fun milestones :: "event list \<Rightarrow> milestone list" where
  "milestones [] = []"
| "milestones (SetUploadProgress (Some p) # es) = Shown (current p) # milestones es"
| "milestones (Remote (UploadToFileSearchStore s f) # es) = Uploaded f # milestones es"
| "milestones (e # es) = milestones es"

text \<open>The loop over the pending files as the specification words it: for each file, in
  the order of the array, the progress is set to the number of the file, counted from one
  after the index \<open>i\<close>, and then the file is uploaded.\<close>

fun fileMilestones :: "nat \<Rightarrow> File list \<Rightarrow> milestone list" where
  "fileMilestones i [] = []"
| "fileMilestones i (f # fs) = Shown (i + 1) # Uploaded f # fileMilestones (i + 1) fs"

text \<open>The \<open>current\<close> and \<open>total\<close> values of the updates that are not \<open>null\<close>.\<close>

definition currents :: "event list \<Rightarrow> nat list" where
  "currents es = map current (List.map_filter id (progressUpdates es))"

definition totals :: "event list \<Rightarrow> nat list" where
  "totals es = map total (List.map_filter id (progressUpdates es))"

text \<open>What a handler run adds to the trace.\<close>

definition added :: "world \<Rightarrow> world \<Rightarrow> event list" where
  "added w w' = drop (length (trace w)) (trace w')"

section \<open>Concrete inputs and sessions\<close>

definition clinicHours :: jsstring where
  "clinicHours = ascii ''Clinic hours: 9-5'' @ [NL] @ ascii ''Call 02-1234 <today>''"

text \<open>\<open>toLowerCase\<close> on strings whose only cased letters are the ASCII capitals.\<close>

definition asciiLower :: "jsstring \<Rightarrow> jsstring" where
  "asciiLower s = map (\<lambda>c. if 65 \<le> c \<and> c \<le> 90 then c + 32 else c) s"

definition demoStore :: jsstring where
  "demoStore = ascii ''fileSearchStores/demo''"

definition demoFile :: File where
  "demoFile = \<lparr>name = ascii ''faq.pdf'', content = [37, 80, 68, 70]\<rparr>"

definition demoAnswer :: jsstring where
  \<open>demoAnswer = ascii ''["Q1", true, "Q2", "Q3", "Q4", "Q5"]''\<close>

text \<open>\<open>JSON.parse\<close> on the one text the remote side of the example answers with; every other
  text of the example is no JSON.\<close>

definition demoParse :: "jsstring \<Rightarrow> json option" where
  "demoParse s =
     (if s = demoAnswer
      then Some (JArray [JString (ascii ''Q1''), JBool True, JString (ascii ''Q2''),
                         JString (ascii ''Q3''), JString (ascii ''Q4''), JString (ascii ''Q5'')])
      else None)"

text \<open>A remote side on which every call succeeds: an upload is done at the first status
  check, and every generated text is the array of questions.\<close>

definition demoEnv :: env where
  "demoEnv =
     \<lparr>toLowerCase = asciiLower,
      JSON_parse = demoParse,
      dateNow = 1700000000000,
      newGoogleGenAI = None,
      fileSearchStoresCreate = (\<lambda>tr d. Inr (Some demoStore)),
      uploadToFileSearchStore = (\<lambda>tr s f. Inr False),
      operationsGet = (\<lambda>tr s f. Inr True),
      generateContent = (\<lambda>tr p. Inr \<lparr>responseText = Some demoAnswer, responseChunks = None\<rparr>),
      fileSearchStoresDelete = (\<lambda>tr s. None),
      hasSelectedApiKey = Some (Inr True),
      openSelectKey = Some None,
      patience = 3\<rparr>"

text \<open>The same remote side with the generation service down, and with a key that the
  store creation does not accept.\<close>

definition unavailable :: thrown where
  "unavailable = JsError (ascii ''503 Service Unavailable'')"

definition failingEnv :: env where
  "failingEnv = demoEnv\<lparr>generateContent := (\<lambda>tr p. Inl unavailable)\<rparr>"

definition invalidKey :: thrown where
  "invalidKey = JsError (ascii ''API key not valid. Please pass a valid API key.'')"

definition invalidKeyEnv :: env where
  "invalidKeyEnv = demoEnv\<lparr>fileSearchStoresCreate := (\<lambda>tr d. Inl invalidKey)\<rparr>"

text \<open>A session: the application is mounted, one file is chosen, the setup runs, a patient
  logs in, and a question is sent while the generation service is down.\<close>

definition welcomed :: world where
  "welcomed = addFiles [demoFile] (mount demoEnv initialWorld)"

definition bound :: world where
  "bound = fst (handleAdminSetupComplete demoEnv welcomed)"

definition chatting :: world where
  "chatting = handlePatientLogin (ascii ''Chen'') (ascii ''0912345678'') bound"

definition afterFailedQuery :: world where
  "afterFailedQuery = handleSendMessage failingEnv (ascii ''opening hours?'') chatting"

text \<open>The remote side on which the deletion of a store fails, and on which the creation
  of a store fails for a reason other than the key.\<close>

definition deleteFailsEnv :: env where
  "deleteFailsEnv = demoEnv\<lparr>fileSearchStoresDelete := (\<lambda>tr s. Some unavailable)\<rparr>"

definition createFailsEnv :: env where
  "createFailsEnv = demoEnv\<lparr>fileSearchStoresCreate := (\<lambda>tr d. Inl unavailable)\<rparr>"

text \<open>The query of the scenario in the specification, which holds the second keyword.\<close>

definition crisisQuery :: jsstring where
  "crisisQuery = [25105, 24819, 33258, 27578]"

section \<open>Lemmas about the renderer\<close>

subsection \<open>Evaluation of characters\<close>

lemmas js_chars = ascii_def NL_def STAR_def DASH_def DOT_def UNDERSCORE_def BACKTICK_def
  isLineTerminator_def isWhiteSpace_def isDigit_def dot_def

subsection \<open>Lines\<close>

lemma split_nl_nonempty: "split_nl t \<noteq> []"
  by (induction t) (auto split: list.splits)

lemma joinLines_split_nl: "joinLines (split_nl t) = brForNewline t"
proof (induction t)
  case Nil
  show ?case by (simp add: brForNewline_def)
next
  case (Cons c cs)
  obtain l ls where s: "split_nl cs = l # ls"
    using split_nl_nonempty [of cs] by (cases "split_nl cs") auto
  show ?case using Cons s by (cases ls) (auto simp: brForNewline_def)
qed

lemma split_nl_no_NL: "l \<in> set (split_nl t) \<Longrightarrow> NL \<notin> set l"
proof (induction t arbitrary: l)
  case Nil
  then show ?case by simp
next
  case (Cons c cs)
  obtain k ks where s: "split_nl cs = k # ks"
    using split_nl_nonempty [of cs] by (cases "split_nl cs") auto
  show ?case
  proof (cases "c = NL")
    case True
    with Cons show ?thesis by auto
  next
    case False
    with Cons.prems s have "l = c # k \<or> l \<in> set ks" by auto
    then show ?thesis using Cons.IH s False by auto
  qed
qed

lemma split_nl_single: "NL \<notin> set r \<Longrightarrow> split_nl r = [r]"
  by (induction r) auto

lemma brForNewline_id: "NL \<notin> set r \<Longrightarrow> brForNewline r = r"
  by (induction r) (auto simp: brForNewline_def)

lemma joinLines_Cons: "joinLines (l # ls) = l @ concat (map (\<lambda>l. BR @ l) ls)"
  by (induction ls arbitrary: l) auto

lemma isBlank_Nil: "isBlank []"
  by (simp add: isBlank_def trim_def)

lemma isBlank_iff: "isBlank l \<longleftrightarrow> (\<forall>c\<in>set l. isWhiteSpace c)"
proof
  assume "isBlank l"
  then have a: "\<forall>c\<in>set (dropWhile isWhiteSpace l). isWhiteSpace c"
    by (simp add: isBlank_def trim_def)
  have "dropWhile isWhiteSpace l = []"
  proof (rule ccontr)
    assume n: "dropWhile isWhiteSpace l \<noteq> []"
    then have "\<not> isWhiteSpace (hd (dropWhile isWhiteSpace l))" by (rule hd_dropWhile)
    with a n show False by simp
  qed
  then show "\<forall>c\<in>set l. isWhiteSpace c" by simp
next
  assume "\<forall>c\<in>set l. isWhiteSpace c"
  then have "dropWhile isWhiteSpace l = []" by simp
  then show "isBlank l" unfolding isBlank_def trim_def by (simp only: rev.simps dropWhile.simps)
qed

subsection \<open>The inline replacements where nothing matches\<close>

lemma replaceAll_id:
  "(\<And>c cs. c \<in> set s \<Longrightarrow> m (c # cs) = None) \<Longrightarrow> replaceAll m f 0 s = s"
  by (induction s) auto

lemma alternatives_None:
  "d1 \<noteq> [] \<Longrightarrow> d2 \<noteq> [] \<Longrightarrow> c \<noteq> hd d1 \<Longrightarrow> c \<noteq> hd d2 \<Longrightarrow> alternatives d1 d2 (c # cs) = None"
  by (cases d1; cases d2) (auto simp: alternatives_def delimitedAt_def)

lemma codeAt_None: "c \<noteq> BACKTICK \<Longrightarrow> codeAt (c # cs) = None"
  by (simp add: codeAt_def Let_def)

lemma matchers_off_delimiter:
  assumes "c \<noteq> STAR" "c \<noteq> UNDERSCORE" "c \<noteq> BACKTICK"
  shows "boldAt (c # cs) = None" "italicAt (c # cs) = None" "codeAt (c # cs) = None"
  using assms by (simp_all add: boldAt_def italicAt_def alternatives_None codeAt_None)

lemma lazyUntil_Some_hd: "lazyUntil cls d s = Some g \<Longrightarrow> d \<noteq> [] \<Longrightarrow> hd d \<in> set s"
proof (induction s arbitrary: g)
  case Nil
  then show ?case by simp
next
  case (Cons c cs)
  show ?case
  proof (cases "prefix d (c # cs)")
    case True
    with Cons.prems(2) show ?thesis by (cases d) auto
  next
    case False
    with Cons show ?thesis by (auto split: if_splits)
  qed
qed

lemma delimitedAt_lone:
  assumes "d \<noteq> []" "hd d \<notin> set b"
  shows "delimitedAt d (c # b) = None"
proof (cases "delimitedAt d (c # b)")
  case None
  then show ?thesis .
next
  case (Some g)
  then have l: "lazyUntil dot d (drop (length d) (c # b)) = Some g"
    by (auto simp: delimitedAt_def split: if_splits)
  from l assms(1) have "hd d \<in> set (drop (length d) (c # b))" by (rule lazyUntil_Some_hd)
  moreover have "set (drop (length d) (c # b)) \<subseteq> set b"
    using assms(1) by (cases d) (auto dest: in_set_dropD)
  ultimately show ?thesis using assms(2) by auto
qed

lemma alternatives_lone:
  assumes "d1 \<noteq> []" "d2 \<noteq> []" "hd d1 \<notin> set b" "hd d2 \<notin> set b"
  shows "alternatives d1 d2 (c # b) = None"
  using assms by (simp add: alternatives_def delimitedAt_lone)

lemma codeAt_lone: "BACKTICK \<notin> set b \<Longrightarrow> codeAt (c # b) = None"
proof -
  assume "BACKTICK \<notin> set b"
  then have "takeWhile (\<lambda>x. x \<noteq> BACKTICK) b = b" by (intro takeWhile_eq_all_conv [THEN iffD2]) auto
  then show ?thesis unfolding codeAt_def Let_def by (simp only: list.case) simp
qed

lemma matchers_lone:
  assumes "\<not> hasDelimiter b"
  shows "boldAt (d # b) = None" "italicAt (d # b) = None" "codeAt (d # b) = None"
  using assms
  by (simp_all add: boldAt_def italicAt_def alternatives_lone codeAt_lone hasDelimiter_def)

lemma replaceAll_lone:
  assumes "\<And>c cs. c \<in> set a \<Longrightarrow> m (c # cs) = None"
    and "m (d # b) = None"
    and "\<And>c cs. c \<in> set b \<Longrightarrow> m (c # cs) = None"
  shows "replaceAll m f 0 (a @ d # b) = a @ d # b"
  using assms(1)
proof (induction a)
  case Nil
  have "replaceAll m f 0 b = b" using assms(3) by (rule replaceAll_id)
  then show ?case using assms(2) by simp
next
  case (Cons x a)
  then show ?case by simp
qed

lemma inline_lone:
  assumes "\<not> hasDelimiter a" "\<not> hasDelimiter b"
  shows "inline (a @ d # b) = a @ d # b"
proof -
  have off: "boldAt (c # cs) = None" "italicAt (c # cs) = None" "codeAt (c # cs) = None"
    if "c \<in> set a \<or> c \<in> set b" for c cs
    using that assms by (auto intro!: matchers_off_delimiter simp: hasDelimiter_def)
  have b: "replaceAll boldAt STRONG 0 (a @ d # b) = a @ d # b"
    by (rule replaceAll_lone) (simp_all add: off matchers_lone assms(2))
  have i: "replaceAll italicAt EM 0 (a @ d # b) = a @ d # b"
    by (rule replaceAll_lone) (simp_all add: off matchers_lone assms(2))
  have c: "replaceAll codeAt CODE 0 (a @ d # b) = a @ d # b"
    by (rule replaceAll_lone) (simp_all add: off matchers_lone assms(2))
  show ?thesis by (simp add: inline_def b i c)
qed

lemma inline_plain:
  assumes "\<not> hasDelimiter l"
  shows "inline l = l"
proof -
  have off: "boldAt (c # cs) = None" "italicAt (c # cs) = None" "codeAt (c # cs) = None"
    if "c \<in> set l" for c cs
    using that assms by (auto intro!: matchers_off_delimiter simp: hasDelimiter_def)
  show ?thesis by (simp add: inline_def replaceAll_id off)
qed

subsection \<open>Paragraph lines in the loop\<close>

lemma renderLine_paragraph:
  assumes "paragraphLine l" "listType st = None"
  shows "renderLine st l =
           st\<lparr>paraBuffer := paraBuffer st @ (if paraBuffer st \<noteq> [] then BR else []) @ l\<rparr>"
  using assms
  by (simp add: renderLine_def paragraphLine_def isHeading_def isBlank_def flushList_def Let_def)

lemma renderLine_blank:
  assumes "noSpecialLine l" "isBlank l" "listType st = None"
  shows "renderLine st l = flushPara st"
  using assms
  by (simp add: renderLine_def noSpecialLine_def inline_plain isHeading_def isBlank_def
      flushList_def Let_def)

lemma plainLine_paragraphLine: "plainLine l \<Longrightarrow> paragraphLine l"
  by (simp add: plainLine_def noSpecialLine_def paragraphLine_def inline_plain)

lemma foldl_renderLine_paragraph:
  "list_all paragraphLine ls \<Longrightarrow> listType st = None \<Longrightarrow> paraBuffer st \<noteq> [] \<Longrightarrow>
   foldl renderLine st ls = st\<lparr>paraBuffer := paraBuffer st @ concat (map (\<lambda>l. BR @ l) ls)\<rparr>"
proof (induction ls arbitrary: st)
  case Nil
  show ?case by simp
next
  case (Cons l ls)
  from Cons.prems have p: "paragraphLine l" and r: "list_all paragraphLine ls" by simp_all
  let ?st = "st\<lparr>paraBuffer := paraBuffer st @ (if paraBuffer st \<noteq> [] then BR else []) @ l\<rparr>"
  have s: "renderLine st l = ?st"
    using p Cons.prems(2) by (rule renderLine_paragraph)
  have "foldl renderLine ?st ls = ?st\<lparr>paraBuffer := paraBuffer ?st @ concat (map (\<lambda>l. BR @ l) ls)\<rparr>"
    using r Cons.prems(2,3) by (intro Cons.IH) simp_all
  then show ?case using s Cons.prems(3) by simp
qed

lemma render_paragraph_lines:
  assumes "list_all paragraphLine (l # ls)"
  shows "html (flushList (flushPara (foldl renderLine initialRender (l # ls))))
         = P_OPEN @ joinLines (l # ls) @ P_CLOSE"
proof -
  from assms have p: "paragraphLine l" and r: "list_all paragraphLine ls" by simp_all
  from p have ne: "l \<noteq> []" using isBlank_Nil by (auto simp: paragraphLine_def)
  let ?st = "initialRender\<lparr>paraBuffer := l\<rparr>"
  have s: "renderLine initialRender l = ?st"
    using renderLine_paragraph [OF p, of initialRender] by (simp add: initialRender_def)
  have "foldl renderLine ?st ls = ?st\<lparr>paraBuffer := paraBuffer ?st @ concat (map (\<lambda>l. BR @ l) ls)\<rparr>"
    using r ne by (intro foldl_renderLine_paragraph) (simp_all add: initialRender_def)
  then show ?thesis
    using s ne by (simp add: joinLines_Cons flushPara_def flushList_def initialRender_def)
qed

lemma renderMarkdown_paragraph:
  assumes "list_all paragraphLine (split_nl t)"
  shows "renderMarkdown t = P_OPEN @ brForNewline t @ P_CLOSE"
proof -
  obtain l ls where s: "split_nl t = l # ls"
    using split_nl_nonempty [of t] by (cases "split_nl t") auto
  from assms s have "t \<noteq> []" using isBlank_Nil by (auto simp: paragraphLine_def)
  moreover have "html (flushList (flushPara (foldl renderLine initialRender (split_nl t))))
      = P_OPEN @ joinLines (split_nl t) @ P_CLOSE"
    using assms unfolding s by (rule render_paragraph_lines)
  ultimately show ?thesis by (simp add: renderMarkdown_def joinLines_split_nl)
qed

lemma list_all_plain_paragraph: "list_all plainLine ls \<Longrightarrow> list_all paragraphLine ls"
  by (induction ls) (simp_all add: plainLine_paragraphLine)

section \<open>Lemmas about the service and the handlers\<close>

lemmas setters = setStatus_def setIsApiKeySelected_def setApiKeyError_def setError_def
  setUploadProgress_def setActiveRagStoreName_def setChatHistory_def setIsQueryLoading_def
  setExampleQuestions_def setDocumentName_def setFiles_def setPatientName_def
  remote_def consoleError_def appendMessage_def

subsection \<open>The service leaves the cells of the application alone\<close>

lemma createRagStore_frame:
  "createRagStore env d w = (w', r) \<Longrightarrow> app w' = app w \<and> ai w' = ai w"
  by (auto simp: createRagStore_def setters Let_def split: if_splits sum.splits option.splits)

lemma createRagStore_name:
  "createRagStore env d w = (w', Inr n) \<Longrightarrow> n \<noteq> [] \<and> ai w"
  by (auto simp: createRagStore_def Let_def split: if_splits sum.splits option.splits)

lemma pollOperation_frame:
  "pollOperation env s f fuel done w = (w', c) \<Longrightarrow> app w' = app w \<and> ai w' = ai w"
proof (induction env s f fuel "done" w rule: pollOperation.induct)
  case 1
  then show ?case by simp
next
  case 2
  then show ?case by simp
next
  case 3
  then show ?case by (auto simp: setters Let_def split: sum.splits)
qed

lemma uploadToRagStore_frame:
  "uploadToRagStore env s f w = (w', c) \<Longrightarrow> app w' = app w \<and> ai w' = ai w"
  using pollOperation_frame
  by (fastforce simp: uploadToRagStore_def setters Let_def split: if_splits sum.splits)

lemma generateExampleQuestions_frame:
  "generateExampleQuestions env s w = (w', r) \<Longrightarrow> app w' = app w \<and> ai w' = ai w"
  by (auto simp: generateExampleQuestions_def questionsFailed_def setters Let_def
      split: if_splits sum.splits option.splits)

lemma fileSearch_frame:
  "fileSearch env s q w = (w', r) \<Longrightarrow> app w' = app w \<and> ai w' = ai w"
  by (auto simp: fileSearch_def setters Let_def split: if_splits sum.splits)

lemma deleteRagStore_frame:
  "deleteRagStore env s w = (w', r) \<Longrightarrow> app w' = app w \<and> ai w' = ai w"
  by (auto simp: deleteRagStore_def setters split: if_splits)

subsection \<open>The upload loop changes only the progress\<close>

lemma uploadFiles_frame:
  "uploadFiles env s n i fs w = (w', c) \<Longrightarrow>
   (app w')\<lparr>uploadProgress := None\<rparr> = (app w)\<lparr>uploadProgress := None\<rparr> \<and> ai w' = ai w"
proof (induction fs arbitrary: i w)
  case Nil
  then show ?case by simp
next
  case (Cons f fs)
  let ?w1 = "setUploadProgress (Some (importingProgress (uploadProgress (app w)) i n f)) w"
  obtain w2 c2 where u: "uploadToRagStore env s f ?w1 = (w2, c2)" by force
  from uploadToRagStore_frame [OF u]
  have f2: "(app w2)\<lparr>uploadProgress := None\<rparr> = (app w)\<lparr>uploadProgress := None\<rparr>" "ai w2 = ai w"
    by (simp_all add: setters)
  show ?case
  proof (cases c2)
    case Resolved
    with Cons.prems u have "uploadFiles env s n (i + 1) fs w2 = (w', c)" by (simp add: Let_def)
    from Cons.IH [OF this] f2 show ?thesis by simp
  next
    case (Rejected e)
    with Cons.prems u f2 show ?thesis by (auto simp: Let_def)
  next
    case Pending
    with Cons.prems u f2 show ?thesis by (auto simp: Let_def)
  qed
qed

lemma uploadFiles_fields:
  assumes "uploadFiles env s n i fs w = (w', c)"
  shows "status (app w') = status (app w)"
    and "activeRagStoreName (app w') = activeRagStoreName (app w)"
    and "isApiKeySelected (app w') = isApiKeySelected (app w)"
    and "apiKeyError (app w') = apiKeyError (app w)"
    and "error (app w') = error (app w)"
    and "ai w' = ai w"
proof -
  from uploadFiles_frame [OF assms]
  have e: "(app w')\<lparr>uploadProgress := None\<rparr> = (app w)\<lparr>uploadProgress := None\<rparr>" and a: "ai w' = ai w"
    by simp_all
  from e have "status ((app w')\<lparr>uploadProgress := None\<rparr>) = status ((app w)\<lparr>uploadProgress := None\<rparr>)"
    by simp
  then show "status (app w') = status (app w)" by simp
  from e have "activeRagStoreName ((app w')\<lparr>uploadProgress := None\<rparr>)
      = activeRagStoreName ((app w)\<lparr>uploadProgress := None\<rparr>)" by simp
  then show "activeRagStoreName (app w') = activeRagStoreName (app w)" by simp
  from e have "isApiKeySelected ((app w')\<lparr>uploadProgress := None\<rparr>)
      = isApiKeySelected ((app w)\<lparr>uploadProgress := None\<rparr>)" by simp
  then show "isApiKeySelected (app w') = isApiKeySelected (app w)" by simp
  from e have "apiKeyError ((app w')\<lparr>uploadProgress := None\<rparr>)
      = apiKeyError ((app w)\<lparr>uploadProgress := None\<rparr>)" by simp
  then show "apiKeyError (app w') = apiKeyError (app w)" by simp
  from e have "error ((app w')\<lparr>uploadProgress := None\<rparr>)
      = error ((app w)\<lparr>uploadProgress := None\<rparr>)" by simp
  then show "error (app w') = error (app w)" by simp
  show "ai w' = ai w" by (rule a)
qed

subsection \<open>The provisioning sequence\<close>

text \<open>The steps of \<open>provision\<close>, named: the store, the state before and after the loop, and
  the state after the questions.\<close>

lemma provision_steps:
  assumes "provision env fs w = (w', c)"
  obtains (create_failed) e where
      "createRagStore env (ascii ''clinic-session-'' @ decimal (dateNow env)) w = (w', Inl e)"
      "c = Rejected e"
  | (upload_stopped) w1 n where
      "createRagStore env (ascii ''clinic-session-'' @ decimal (dateNow env)) w = (w1, Inr n)"
      "uploadFiles env n (length fs) 0 fs
         (setUploadProgress (Some \<lparr>current = 1, total = length fs + 2,
            message = Some MSG_PROCESSING, fileName = None\<rparr>) w1) = (w', c)"
      "c \<noteq> Resolved"
  | (questions_failed) w1 n w3 e where
      "createRagStore env (ascii ''clinic-session-'' @ decimal (dateNow env)) w = (w1, Inr n)"
      "uploadFiles env n (length fs) 0 fs
         (setUploadProgress (Some \<lparr>current = 1, total = length fs + 2,
            message = Some MSG_PROCESSING, fileName = None\<rparr>) w1) = (w3, Resolved)"
      "generateExampleQuestions env n
         (setUploadProgress (Some \<lparr>current = length fs + 1, total = length fs + 2,
            message = Some MSG_GENERATING, fileName = Some []\<rparr>) w3) = (w', Inl e)"
      "c = Rejected e"
  | (finished) w1 n w3 w5 qs where
      "createRagStore env (ascii ''clinic-session-'' @ decimal (dateNow env)) w = (w1, Inr n)"
      "uploadFiles env n (length fs) 0 fs
         (setUploadProgress (Some \<lparr>current = 1, total = length fs + 2,
            message = Some MSG_PROCESSING, fileName = None\<rparr>) w1) = (w3, Resolved)"
      "generateExampleQuestions env n
         (setUploadProgress (Some \<lparr>current = length fs + 1, total = length fs + 2,
            message = Some MSG_GENERATING, fileName = Some []\<rparr>) w3) = (w5, Inr qs)"
      "w' = setFiles []
              (setStatus Binding
                 (setChatHistory []
                    (setActiveRagStoreName (Some n)
                       (setDocumentName (if 0 < length fs then DOC_KNOWLEDGE_BASE else DOC_ASSISTANT)
                          (setUploadProgress
                             (Some \<lparr>current = length fs + 2, total = length fs + 2,
                                    message = Some MSG_READY, fileName = Some []\<rparr>)
                             (setExampleQuestions qs w5))))))"
      "c = Resolved"
proof -
  let ?d = "ascii ''clinic-session-'' @ decimal (dateNow env)"
  obtain w1 r1 where c1: "createRagStore env ?d w = (w1, r1)" by force
  show thesis
  proof (cases r1)
    case (Inl e)
    with assms c1 have "w' = w1" "c = Rejected e" by (simp_all add: provision_def Let_def)
    with c1 Inl show thesis by (intro create_failed) simp_all
  next
    case (Inr n)
    let ?w2 = "setUploadProgress (Some \<lparr>current = 1, total = length fs + 2,
            message = Some MSG_PROCESSING, fileName = None\<rparr>) w1"
    obtain w3 c3 where u: "uploadFiles env n (length fs) 0 fs ?w2 = (w3, c3)" by force
    show thesis
    proof (cases "c3 = Resolved")
      case False
      with assms c1 Inr u have "w' = w3" "c = c3"
        by (cases c3; simp add: provision_def Let_def)+
      with c1 Inr u False show thesis by (intro upload_stopped) simp_all
    next
      case True
      let ?w4 = "setUploadProgress (Some \<lparr>current = length fs + 1, total = length fs + 2,
            message = Some MSG_GENERATING, fileName = Some []\<rparr>) w3"
      obtain w5 r5 where g: "generateExampleQuestions env n ?w4 = (w5, r5)" by force
      show thesis
      proof (cases r5)
        case (Inl e)
        with assms c1 Inr u True g have "w' = w5" "c = Rejected e"
          by (simp_all add: provision_def Let_def)
        with c1 \<open>r1 = Inr n\<close> u True g Inl show thesis by (intro questions_failed) simp_all
      next
        case (Inr qs)
        with assms c1 \<open>r1 = Inr n\<close> u True g show thesis
          by (intro finished [of w1 n w3 w5 qs]) (simp_all add: provision_def Let_def)
      qed
    qed
  qed
qed

lemma provision_resolved:
  assumes "provision env fs w = (w', Resolved)"
  shows "status (app w') = Binding"
    and "\<exists>n. activeRagStoreName (app w') = Some n \<and> n \<noteq> []"
    and "ai w'"
    and "chatHistory (app w') = []"
    and "files (app w') = []"
    and "documentName (app w') = (if 0 < length fs then DOC_KNOWLEDGE_BASE else DOC_ASSISTANT)"
proof -
  from assms obtain w1 n w3 w5 qs where
      c: "createRagStore env (ascii ''clinic-session-'' @ decimal (dateNow env)) w = (w1, Inr n)"
    and u: "uploadFiles env n (length fs) 0 fs
         (setUploadProgress (Some \<lparr>current = 1, total = length fs + 2,
            message = Some MSG_PROCESSING, fileName = None\<rparr>) w1) = (w3, Resolved)"
    and g: "generateExampleQuestions env n
         (setUploadProgress (Some \<lparr>current = length fs + 1, total = length fs + 2,
            message = Some MSG_GENERATING, fileName = Some []\<rparr>) w3) = (w5, Inr qs)"
    and w': "w' = setFiles []
              (setStatus Binding
                 (setChatHistory []
                    (setActiveRagStoreName (Some n)
                       (setDocumentName (if 0 < length fs then DOC_KNOWLEDGE_BASE else DOC_ASSISTANT)
                          (setUploadProgress
                             (Some \<lparr>current = length fs + 2, total = length fs + 2,
                                    message = Some MSG_READY, fileName = Some []\<rparr>)
                             (setExampleQuestions qs w5))))))"
    by (cases rule: provision_steps) simp_all
  from createRagStore_name [OF c] have n: "n \<noteq> []" and a: "ai w" by simp_all
  from createRagStore_frame [OF c] uploadFiles_fields(6) [OF u] generateExampleQuestions_frame [OF g]
  have "ai w5 = ai w" by (simp add: setters)
  with a show "ai w'" by (simp add: w' setters)
  show "status (app w') = Binding" by (simp add: w' setters)
  show "\<exists>n. activeRagStoreName (app w') = Some n \<and> n \<noteq> []" using n by (simp add: w' setters)
  show "chatHistory (app w') = []" by (simp add: w' setters)
  show "files (app w') = []" by (simp add: w' setters)
  show "documentName (app w') = (if 0 < length fs then DOC_KNOWLEDGE_BASE else DOC_ASSISTANT)"
    by (simp add: w' setters)
qed

lemma provision_not_resolved:
  assumes "provision env fs w = (w', c)" "c \<noteq> Resolved"
  shows "status (app w') = status (app w)"
    and "activeRagStoreName (app w') = activeRagStoreName (app w)"
    and "isApiKeySelected (app w') = isApiKeySelected (app w)"
    and "apiKeyError (app w') = apiKeyError (app w)"
    and "error (app w') = error (app w)"
    and "ai w' = ai w"
proof -
  have "status (app w') = status (app w)
      \<and> activeRagStoreName (app w') = activeRagStoreName (app w)
      \<and> isApiKeySelected (app w') = isApiKeySelected (app w)
      \<and> apiKeyError (app w') = apiKeyError (app w)
      \<and> error (app w') = error (app w)
      \<and> ai w' = ai w"
    using assms(1)
  proof (cases rule: provision_steps)
    case (create_failed e)
    from createRagStore_frame [OF create_failed(1)] show ?thesis by simp
  next
    case (upload_stopped w1 n)
    from createRagStore_frame [OF upload_stopped(1)] uploadFiles_fields [OF upload_stopped(2)]
    show ?thesis by (simp add: setters)
  next
    case (questions_failed w1 n w3 e)
    from createRagStore_frame [OF questions_failed(1)] uploadFiles_fields [OF questions_failed(2)]
      generateExampleQuestions_frame [OF questions_failed(3)]
    show ?thesis by (simp add: setters)
  next
    case (finished w1 n w3 w5 qs)
    with assms(2) show ?thesis by simp
  qed
  then show "status (app w') = status (app w)"
    and "activeRagStoreName (app w') = activeRagStoreName (app w)"
    and "isApiKeySelected (app w') = isApiKeySelected (app w)"
    and "apiKeyError (app w') = apiKeyError (app w)"
    and "error (app w') = error (app w)"
    and "ai w' = ai w"
    by simp_all
qed

subsection \<open>The handlers and the active store\<close>

lemma initialize_effect:
  "initialize env w = (w', r) \<Longrightarrow> app w' = app w \<and> trace w' = trace w \<and> (ai w \<longrightarrow> ai w')
     \<and> (r = None \<longrightarrow> ai w') \<and> (r \<noteq> None \<longrightarrow> w' = w)"
  by (auto simp: initialize_def split: option.splits)

lemma handleError_fields:
  "status (app (handleError m e w)) = Error"
  "activeRagStoreName (app (handleError m e w)) = activeRagStoreName (app w)"
  "ai (handleError m e w) = ai w"
  "error (app (handleError m e w)) = Some (m @ (if isTruthy e then ascii '': '' @ errorText e else []))"
  "chatHistory (app (handleError m e w)) = chatHistory (app w)"
  by (simp_all add: handleError_def setters)

lemma provisionFailed_fields:
  "activeRagStoreName (app (provisionFailed env e w)) = activeRagStoreName (app w)"
  "ai (provisionFailed env e w) = ai w"
  "status (app (provisionFailed env e w)) = (if isInvalidKey env e then Welcome else Error)"
  by (simp_all add: provisionFailed_def handleError_fields setters)

text \<open>After a run of the setup handler the session is bound to a new store, or its active
  store is the one it had before and it is not on the binding or chat screen unless it was
  there before.\<close>

lemma handleAdminSetupComplete_effect:
  assumes "handleAdminSetupComplete env w = (w', c)"
  shows "(ai w \<longrightarrow> ai w')
     \<and> ((status (app w') = Binding \<and> truthyName (activeRagStoreName (app w')) \<and> ai w')
        \<or> (activeRagStoreName (app w') = activeRagStoreName (app w)
            \<and> (status (app w') = status (app w) \<or> status (app w') = Welcome
                \<or> status (app w') = Error \<or> status (app w') = Uploading)))"
proof (cases "isApiKeySelected (app w)")
  case False
  with assms have "w' = setApiKeyError (Some MSG_SELECT_KEY) w"
    by (simp add: handleAdminSetupComplete_def)
  then show ?thesis by (simp add: setters)
next
  case True
  obtain w1 r where i: "initialize env (setApiKeyError None w) = (w1, r)" by force
  from initialize_effect [OF i]
  have w1: "app w1 = app (setApiKeyError None w)" "ai w \<longrightarrow> ai w1" "r = None \<longrightarrow> ai w1"
    by (simp_all add: setters)
  show ?thesis
  proof (cases r)
    case (Some err)
    with assms True i have "w' = handleError MSG_INIT_FAILED err w1"
      by (simp add: handleAdminSetupComplete_def)
    with w1 show ?thesis by (simp add: handleError_fields setters)
  next
    case None
    let ?w0 = "beginUpload (files (app w)) w1"
    have w0: "activeRagStoreName (app ?w0) = activeRagStoreName (app w)"
      "status (app ?w0) = Uploading" "ai ?w0"
      using w1 None by (simp_all add: beginUpload_def setters)
    obtain w2 c2 where p: "provision env (files (app w)) ?w0 = (w2, c2)" by force
    show ?thesis
    proof (cases c2)
      case Resolved
      with assms True i None p have w': "w' = setUploadProgress None w2"
        by (simp add: handleAdminSetupComplete_def)
      from provision_resolved [OF p [unfolded Resolved]]
      show ?thesis by (auto simp: w' setters truthyName_def)
    next
      case (Rejected err)
      with assms True i None p
      have w': "w' = setUploadProgress None (provisionFailed env err w2)"
        by (simp add: handleAdminSetupComplete_def)
      from provision_not_resolved [OF p] Rejected w0
      have "activeRagStoreName (app w2) = activeRagStoreName (app w)" "ai w2" by simp_all
      then show ?thesis by (simp add: w' setters provisionFailed_fields)
    next
      case Pending
      with assms True i None p have w': "w' = w2"
        by (simp add: handleAdminSetupComplete_def)
      from provision_not_resolved [OF p] Pending w0
      show ?thesis by (simp add: w')
    qed
  qed
qed

lemma checkApiKey_fields:
  "status (app (checkApiKey env w)) = status (app w)"
  "activeRagStoreName (app (checkApiKey env w)) = activeRagStoreName (app w)"
  "ai (checkApiKey env w) = ai w"
  by (simp_all add: checkApiKey_def setters split: option.splits sum.splits)

lemma handleSelectKey_fields:
  "status (app (handleSelectKey env w)) = status (app w)"
  "activeRagStoreName (app (handleSelectKey env w)) = activeRagStoreName (app w)"
  "ai (handleSelectKey env w) = ai w"
  by (simp_all add: handleSelectKey_def checkApiKey_fields setters split: option.splits)

lemma handleSendMessage_fields:
  "activeRagStoreName (app (handleSendMessage env m w)) = activeRagStoreName (app w)"
  "ai (handleSendMessage env m w) = ai w"
  "status (app (handleSendMessage env m w)) = status (app w)
     \<or> status (app (handleSendMessage env m w)) = Error"
proof -
  have "activeRagStoreName (app (handleSendMessage env m w)) = activeRagStoreName (app w)
     \<and> ai (handleSendMessage env m w) = ai w
     \<and> (status (app (handleSendMessage env m w)) = status (app w)
         \<or> status (app (handleSendMessage env m w)) = Error)"
  proof (cases "truthyName (activeRagStoreName (app w))")
    case False
    then show ?thesis
      by (auto simp: handleSendMessage_def truthyName_def split: option.splits)
  next
    case True
    then obtain n where n: "activeRagStoreName (app w) = Some n" "n \<noteq> []"
      by (auto simp: truthyName_def split: option.splits)
    let ?w1 = "setIsQueryLoading True (appendMessage (userMessage m) w)"
    obtain w2 r where f: "fileSearch env n m ?w1 = (w2, r)" by force
    from fileSearch_frame [OF f] have "app w2 = app ?w1" "ai w2 = ai w" by (simp_all add: setters)
    then show ?thesis
      using n f by (cases r) (simp_all add: handleSendMessage_def handleError_fields setters Let_def)
  qed
  then show "activeRagStoreName (app (handleSendMessage env m w)) = activeRagStoreName (app w)"
    and "ai (handleSendMessage env m w) = ai w"
    and "status (app (handleSendMessage env m w)) = status (app w)
     \<or> status (app (handleSendMessage env m w)) = Error"
    by simp_all
qed

lemma handleEndChat_fields:
  "status (app (handleEndChat env w)) = Welcome"
  "activeRagStoreName (app (handleEndChat env w)) = None"
  "chatHistory (app (handleEndChat env w)) = []"
  "exampleQuestions (app (handleEndChat env w)) = []"
  "documentName (app (handleEndChat env w)) = []"
  "files (app (handleEndChat env w)) = []"
  by (simp_all add: handleEndChat_def setters Let_def)

text \<open>With an active store the client of the service is constructed, and on the binding
  and chat screens a store is active.\<close>

lemma reachable_active_store:
  "reachable w \<Longrightarrow>
   (activeRagStoreName (app w) \<noteq> None \<longrightarrow> ai w)
   \<and> (status (app w) = Binding \<or> status (app w) = Chatting
        \<longrightarrow> truthyName (activeRagStoreName (app w)))"
proof (induction rule: reachable.induct)
  case reach_start
  show ?case by (simp add: initialWorld_def)
next
  case (reach_mount w env)
  then show ?case by (simp add: mount_def checkApiKey_fields setters)
next
  case (reach_focus w env)
  then show ?case by (simp add: checkApiKey_fields)
next
  case (reach_selectKey w env)
  then show ?case by (simp add: handleSelectKey_fields)
next
  case (reach_addFiles w fs)
  then show ?case by (simp add: addFiles_def setters)
next
  case (reach_removeFile w i)
  then show ?case by (simp add: handleRemoveFile_def setters)
next
  case (reach_setup w env)
  obtain w' c where h: "handleAdminSetupComplete env w = (w', c)" by force
  from handleAdminSetupComplete_effect [OF h] reach_setup show ?case
    by (auto simp: h)
next
  case (reach_login w patient phone)
  then show ?case by (simp add: handlePatientLogin_def setters)
next
  case (reach_send w env msg)
  with handleSendMessage_fields [of env msg w] show ?case by auto
next
  case (reach_endChat w env)
  then show ?case by (simp add: handleEndChat_fields)
next
  case (reach_clearError w)
  then show ?case by (simp add: clearError_def setters)
qed

subsection \<open>What the provisioning sequence adds to the trace\<close>

lemma uploadCalls_append: "uploadCalls (a @ b) = uploadCalls a @ uploadCalls b"
  by (induction a rule: uploadCalls.induct) simp_all

lemma deleteCalls_append: "deleteCalls (a @ b) = deleteCalls a @ deleteCalls b"
  by (induction a rule: deleteCalls.induct) simp_all

lemma generateContentCalls_append:
  "generateContentCalls (a @ b) = generateContentCalls a @ generateContentCalls b"
  by (induction a rule: generateContentCalls.induct) simp_all

lemma progressUpdates_append: "progressUpdates (a @ b) = progressUpdates a @ progressUpdates b"
  by (induction a rule: progressUpdates.induct) simp_all

lemma currents_append: "currents (a @ b) = currents a @ currents b"
  by (simp add: currents_def progressUpdates_append List.map_filter_def)

lemma totals_append: "totals (a @ b) = totals a @ totals b"
  by (simp add: totals_def progressUpdates_append List.map_filter_def)

lemma milestones_append: "milestones (a @ b) = milestones a @ milestones b"
  by (induction a rule: milestones.induct) simp_all

lemma milestones_without_progress:
  "progressUpdates es = [] \<Longrightarrow> milestones es = map (\<lambda>(s, f). Uploaded f) (uploadCalls es)"
  by (induction es rule: milestones.induct) simp_all

lemma currents_simps:
  "currents [] = []"
  "currents (SetUploadProgress (Some p) # es) = current p # currents es"
  "currents (SetUploadProgress None # es) = currents es"
  "currents (Remote c # es) = currents es"
  "currents (ConsoleError m # es) = currents es"
  by (simp_all add: currents_def List.map_filter_def)

lemma totals_simps:
  "totals [] = []"
  "totals (SetUploadProgress (Some p) # es) = total p # totals es"
  "totals (SetUploadProgress None # es) = totals es"
  "totals (Remote c # es) = totals es"
  "totals (ConsoleError m # es) = totals es"
  by (simp_all add: totals_def List.map_filter_def)

lemma no_progress: "progressUpdates es = [] \<Longrightarrow> currents es = [] \<and> totals es = []"
  by (simp add: currents_def totals_def List.map_filter_def)

lemma replicate_more:
  "replicate (n + 3) x = x # replicate n x @ [x, x]"
  "replicate (n + 4) x = x # (x # replicate n x @ [x, x])"
proof -
  have "replicate n x @ [x, x] = x # x # replicate n x"
    by (induction n) simp_all
  then have e: "replicate n x @ [x, x] = replicate (n + 2) x"
    by simp
  show "replicate (n + 3) x = x # replicate n x @ [x, x]"
    unfolding e by (simp add: numeral_3_eq_3)
  show "replicate (n + 4) x = x # (x # replicate n x @ [x, x])"
    unfolding e by (simp add: numeral_eq_Suc)
qed

lemma added_append: "trace w' = trace w @ es \<Longrightarrow> added w w' = es"
  by (simp add: added_def)

lemma createRagStore_trace:
  "createRagStore env d w = (w', Inr n) \<Longrightarrow> trace w' = trace w @ [Remote (FileSearchStoresCreate d)]"
  by (auto simp: createRagStore_def setters Let_def split: if_splits sum.splits option.splits)

lemma pollOperation_trace:
  "pollOperation env s f fuel done w = (w', c) \<Longrightarrow>
   \<exists>es. trace w' = trace w @ es \<and> uploadCalls es = [] \<and> progressUpdates es = []"
proof (induction env s f fuel "done" w rule: pollOperation.induct)
  case 1
  then show ?case by simp
next
  case 2
  then show ?case by simp
next
  case (3 env store f fuel w)
  let ?w1 = "remote (OperationsGet store f) w"
  show ?case
  proof (cases "operationsGet env (trace w) store f")
    case (Inl e)
    with "3.prems" have "trace w' = trace w @ [Remote (OperationsGet store f)]"
      by (auto simp: setters Let_def)
    then show ?thesis by simp
  next
    case (Inr d)
    with "3.prems" have "pollOperation env store f fuel d ?w1 = (w', c)"
      by (simp add: Let_def)
    from "3.IH" [OF refl Inr this] obtain es where
      "trace w' = trace ?w1 @ es" "uploadCalls es = []" "progressUpdates es = []" by blast
    then have "trace w' = trace w @ (Remote (OperationsGet store f) # es)
        \<and> uploadCalls (Remote (OperationsGet store f) # es) = []
        \<and> progressUpdates (Remote (OperationsGet store f) # es) = []"
      by (simp add: setters)
    then show ?thesis by blast
  qed
qed

lemma uploadToRagStore_trace:
  assumes "uploadToRagStore env s f w = (w', Resolved)"
  shows "\<exists>es. trace w' = trace w @ es \<and> uploadCalls es = [(s, f)] \<and> progressUpdates es = []"
proof -
  let ?w1 = "remote (UploadToFileSearchStore s f) w"
  from assms obtain d where
    p: "pollOperation env s f (patience env) d ?w1 = (w', Resolved)"
    by (auto simp: uploadToRagStore_def Let_def split: if_splits sum.splits)
  from pollOperation_trace [OF p] obtain es where
    "trace w' = trace ?w1 @ es" "uploadCalls es = []" "progressUpdates es = []" by blast
  then have "trace w' = trace w @ (Remote (UploadToFileSearchStore s f) # es)
      \<and> uploadCalls (Remote (UploadToFileSearchStore s f) # es) = [(s, f)]
      \<and> progressUpdates (Remote (UploadToFileSearchStore s f) # es) = []"
    by (simp add: setters)
  then show ?thesis by blast
qed

lemma generateExampleQuestions_trace:
  "generateExampleQuestions env s w = (w', r) \<Longrightarrow>
   \<exists>es. trace w' = trace w @ es \<and> uploadCalls es = [] \<and> progressUpdates es = []"
  by (auto simp: generateExampleQuestions_def questionsFailed_def setters Let_def
      split: if_splits sum.splits option.splits)

text \<open>The loop, entered at index \<open>i\<close> with the progress \<open>p\<close> on display: one upload per file,
  in order; before each upload the progress shows the index of the file plus one, and its
  total stays as it was.\<close>

lemma uploadFiles_trace:
  "uploadFiles env s n i fs w = (w', Resolved) \<Longrightarrow> uploadProgress (app w) = Some p \<Longrightarrow>
   \<exists>es p'. trace w' = trace w @ es \<and> uploadCalls es = map (Pair s) fs
     \<and> currents es = [Suc i ..< Suc i + length fs]
     \<and> totals es = replicate (length fs) (total p)
     \<and> milestones es = fileMilestones i fs
     \<and> uploadProgress (app w') = Some p' \<and> total p' = total p"
proof (induction fs arbitrary: i w p)
  case Nil
  then show ?case by (simp add: currents_simps totals_simps)
next
  case (Cons f fs)
  let ?q = "importingProgress (Some p) i n f"
  let ?w1 = "setUploadProgress (Some ?q) w"
  have q: "current ?q = Suc i" "total ?q = total p"
    by (simp_all add: importingProgress_def Let_def)
  obtain w2 c2 where u: "uploadToRagStore env s f ?w1 = (w2, c2)" by force
  with Cons.prems have c2: "c2 = Resolved"
    by (cases c2) (auto simp: Let_def)
  with Cons.prems u have r: "uploadFiles env s n (i + 1) fs w2 = (w', Resolved)"
    by (simp add: Let_def)
  from uploadToRagStore_frame [OF u] have p2: "uploadProgress (app w2) = Some ?q"
    by (simp add: setters)
  from uploadToRagStore_trace [OF u [unfolded c2]] obtain e1 where
    e1: "trace w2 = trace ?w1 @ e1" "uploadCalls e1 = [(s, f)]" "progressUpdates e1 = []"
    by blast
  from Cons.IH [OF r p2] obtain e2 p' where
    e2: "trace w' = trace w2 @ e2" "uploadCalls e2 = map (Pair s) fs"
      "currents e2 = [Suc (i + 1) ..< Suc (i + 1) + length fs]"
      "totals e2 = replicate (length fs) (total ?q)"
      "uploadProgress (app w') = Some p'" "total p' = total ?q"
      "milestones e2 = fileMilestones (i + 1) fs"
    by blast
  let ?es = "SetUploadProgress (Some ?q) # e1 @ e2"
  have "trace w' = trace w @ ?es" using e1(1) e2(1) by (simp add: setters)
  moreover have "uploadCalls ?es = map (Pair s) (f # fs)"
    using e1(2) e2(2) by (simp add: uploadCalls_append)
  moreover have "currents ?es = [Suc i ..< Suc i + length (f # fs)]"
    using no_progress [OF e1(3)] e2(3) q(1) by (simp add: currents_simps currents_append upt_rec)
  moreover have "totals ?es = replicate (length (f # fs)) (total p)"
    using no_progress [OF e1(3)] e2(4) q(2) by (simp add: totals_simps totals_append)
  moreover have "milestones ?es = fileMilestones i (f # fs)"
    using milestones_without_progress [OF e1(3)] e1(2) e2(7) q(1)
    by (simp add: milestones_append)
  moreover have "uploadProgress (app w') = Some p' \<and> total p' = total p"
    using e2(5,6) q(2) by simp
  ultimately show ?case by blast
qed

lemma provision_trace:
  assumes "provision env fs w = (w', Resolved)"
  shows "\<exists>n es. activeRagStoreName (app w') = Some n \<and> trace w' = trace w @ es
     \<and> uploadCalls es = map (Pair n) fs
     \<and> currents es = 1 # [1 ..< Suc (length fs)] @ [length fs + 1, length fs + 2]
     \<and> totals es = replicate (length fs + 3) (length fs + 2)
     \<and> milestones es
         = Shown 1 # fileMilestones 0 fs @ [Shown (length fs + 1), Shown (length fs + 2)]"
proof -
  let ?p1 = "\<lparr>current = 1, total = length fs + 2, message = Some MSG_PROCESSING, fileName = None\<rparr>"
  let ?p2 = "\<lparr>current = length fs + 1, total = length fs + 2, message = Some MSG_GENERATING,
             fileName = Some []\<rparr>"
  let ?p3 = "\<lparr>current = length fs + 2, total = length fs + 2, message = Some MSG_READY,
             fileName = Some []\<rparr>"
  let ?d = "ascii ''clinic-session-'' @ decimal (dateNow env)"
  from assms obtain w1 n w3 w5 qs where
      c: "createRagStore env ?d w = (w1, Inr n)"
    and u: "uploadFiles env n (length fs) 0 fs (setUploadProgress (Some ?p1) w1) = (w3, Resolved)"
    and g: "generateExampleQuestions env n (setUploadProgress (Some ?p2) w3) = (w5, Inr qs)"
    and w': "w' = setFiles []
              (setStatus Binding
                 (setChatHistory []
                    (setActiveRagStoreName (Some n)
                       (setDocumentName (if 0 < length fs then DOC_KNOWLEDGE_BASE else DOC_ASSISTANT)
                          (setUploadProgress (Some ?p3) (setExampleQuestions qs w5))))))"
    by (cases rule: provision_steps) simp_all
  have t1: "trace (setUploadProgress (Some ?p1) w1)
      = trace w @ [Remote (FileSearchStoresCreate ?d), SetUploadProgress (Some ?p1)]"
    using createRagStore_trace [OF c] by (simp add: setters)
  have "uploadProgress (app (setUploadProgress (Some ?p1) w1)) = Some ?p1" by (simp add: setters)
  from uploadFiles_trace [OF u this] obtain e2 where
    e2: "trace w3 = trace (setUploadProgress (Some ?p1) w1) @ e2"
      "uploadCalls e2 = map (Pair n) fs" "currents e2 = [Suc 0 ..< Suc 0 + length fs]"
      "totals e2 = replicate (length fs) (length fs + 2)"
      "milestones e2 = fileMilestones 0 fs"
    by auto
  from generateExampleQuestions_trace [OF g] obtain e3 where
    e3: "trace w5 = trace (setUploadProgress (Some ?p2) w3) @ e3" "uploadCalls e3 = []"
      "progressUpdates e3 = []"
    by blast
  let ?es = "[Remote (FileSearchStoresCreate ?d), SetUploadProgress (Some ?p1)] @ e2
      @ [SetUploadProgress (Some ?p2)] @ e3 @ [SetUploadProgress (Some ?p3)]"
  have "trace w' = trace w @ ?es"
    using t1 e2(1) e3(1) by (simp add: w' setters)
  moreover have "uploadCalls ?es = map (Pair n) fs"
    using e2(2) e3(2) by (simp add: uploadCalls_append)
  moreover have "currents ?es = 1 # [1 ..< Suc (length fs)] @ [length fs + 1, length fs + 2]"
    using e2(3) no_progress [OF e3(3)] by (simp add: currents_simps currents_append)
  moreover have "totals ?es = replicate (length fs + 3) (length fs + 2)"
    using e2(4) no_progress [OF e3(3)]
    by (simp add: totals_simps totals_append replicate_more)
  moreover have "milestones ?es
      = Shown 1 # fileMilestones 0 fs @ [Shown (length fs + 1), Shown (length fs + 2)]"
    using e2(5) milestones_without_progress [OF e3(3)] e3(2) by (simp add: milestones_append)
  moreover have "activeRagStoreName (app w') = Some n" by (simp add: w' setters)
  ultimately show ?thesis by blast
qed

lemma handleAdminSetupComplete_resolved:
  assumes "handleAdminSetupComplete env w = (w', Resolved)"
  obtains w1 w2 where "isApiKeySelected (app w)" "newGoogleGenAI env = None"
    "initialize env (setApiKeyError None w) = (w1, None)"
    "provision env (files (app w)) (beginUpload (files (app w)) w1) = (w2, Resolved)"
    "w' = setUploadProgress None w2"
proof -
  from assms have k: "isApiKeySelected (app w)"
    by (auto simp: handleAdminSetupComplete_def split: if_splits)
  obtain w1 r where i: "initialize env (setApiKeyError None w) = (w1, r)" by force
  with assms k have r: "r = None"
    by (cases r) (auto simp: handleAdminSetupComplete_def)
  with i have g: "newGoogleGenAI env = None"
    by (auto simp: initialize_def split: option.splits)
  obtain w2 c where p: "provision env (files (app w)) (beginUpload (files (app w)) w1) = (w2, c)"
    by force
  with assms k i r have "c = Resolved" "w' = setUploadProgress None w2"
    by (cases c; simp add: handleAdminSetupComplete_def)+
  with k g i r p that show thesis by simp
qed

text \<open>A setup run that completes: the uploads, the progress values and the totals it adds
  to the trace; the last update is \<open>null\<close>.\<close>

lemma completed_setup_observations:
  assumes "handleAdminSetupComplete env w = (w', Resolved)"
  shows "\<exists>n. activeRagStoreName (app w') = Some n
      \<and> uploadCalls (added w w') = map (Pair n) (files (app w))"
    and "currents (added w w')
      = [0, 1] @ [1 ..< Suc (length (files (app w)))]
        @ [length (files (app w)) + 1, length (files (app w)) + 2]"
    and "totals (added w w') = replicate (length (files (app w)) + 4) (length (files (app w)) + 2)"
    and "last (progressUpdates (added w w')) = None"
    and "milestones (added w w')
      = [Shown 0, Shown 1] @ fileMilestones 0 (files (app w))
        @ [Shown (length (files (app w)) + 1), Shown (length (files (app w)) + 2)]"
proof -
  let ?fs = "files (app w)"
  let ?p0 = "\<lparr>current = 0, total = length ?fs + 2, message = Some MSG_INITIALIZING_DB,
             fileName = None\<rparr>"
  from assms obtain w1 w2 where
      i: "initialize env (setApiKeyError None w) = (w1, None)"
    and p: "provision env ?fs (beginUpload ?fs w1) = (w2, Resolved)"
    and w': "w' = setUploadProgress None w2"
    by (rule handleAdminSetupComplete_resolved)
  from initialize_effect [OF i] have t0: "trace (beginUpload ?fs w1) = trace w @ [SetUploadProgress (Some ?p0)]"
    by (simp add: beginUpload_def setters)
  from provision_trace [OF p] obtain n es where
    es: "activeRagStoreName (app w2) = Some n" "trace w2 = trace (beginUpload ?fs w1) @ es"
      "uploadCalls es = map (Pair n) ?fs"
      "currents es = 1 # [1 ..< Suc (length ?fs)] @ [length ?fs + 1, length ?fs + 2]"
      "totals es = replicate (length ?fs + 3) (length ?fs + 2)"
      "milestones es
        = Shown 1 # fileMilestones 0 ?fs @ [Shown (length ?fs + 1), Shown (length ?fs + 2)]"
    by blast
  let ?all = "SetUploadProgress (Some ?p0) # es @ [SetUploadProgress None]"
  have "trace w' = trace w @ ?all" using t0 es(2) by (simp add: w' setters)
  then have a: "added w w' = ?all" by (rule added_append)
  show "\<exists>n. activeRagStoreName (app w') = Some n
      \<and> uploadCalls (added w w') = map (Pair n) (files (app w))"
    using es(1,3) unfolding a by (simp add: w' setters uploadCalls_append)
  show "currents (added w w')
      = [0, 1] @ [1 ..< Suc (length ?fs)] @ [length ?fs + 1, length ?fs + 2]"
    using es(4) unfolding a by (simp add: currents_simps currents_append)
  show "totals (added w w') = replicate (length ?fs + 4) (length ?fs + 2)"
    using es(5) unfolding a by (simp add: totals_simps totals_append replicate_more)
  show "last (progressUpdates (added w w')) = None"
    unfolding a by (simp add: progressUpdates_append)
  show "milestones (added w w')
      = [Shown 0, Shown 1] @ fileMilestones 0 ?fs
        @ [Shown (length ?fs + 1), Shown (length ?fs + 2)]"
    using es(6) unfolding a by (simp add: milestones_append)
qed

subsection \<open>Substrings\<close>

lemma js_includes_sublist: "js_includes s k \<longleftrightarrow> sublist k s"
  by (induction s) (simp_all add: sublist_Cons_right)

lemma js_includes_iff: "js_includes s k \<longleftrightarrow> (\<exists>pre post. s = pre @ k @ post)"
  by (simp add: js_includes_sublist sublist_def)

lemma crisis_iff:
  "list_ex (\<lambda>keyword. js_includes s keyword) CRISIS_KEYWORDS
     \<longleftrightarrow> (\<exists>k\<in>set CRISIS_KEYWORDS. \<exists>pre post. s = pre @ k @ post)"
  by (simp add: list_ex_iff js_includes_iff)

subsection \<open>Sending a message\<close>

lemma fileSearch_crisis:
  assumes "ai w" "list_ex (\<lambda>keyword. js_includes (toLowerCase env q) keyword) CRISIS_KEYWORDS"
  shows "fileSearch env n q w
    = (w, Inr \<lparr>resultText = Some CRISIS_DETECTED, groundingChunks = [], isCrisis = True\<rparr>)"
  using assms by (simp add: fileSearch_def)

lemma fileSearch_throws:
  assumes "ai w" "\<not> list_ex (\<lambda>keyword. js_includes (toLowerCase env q) keyword) CRISIS_KEYWORDS"
    and "generateContent env (trace w) (queryParameters n q) = Inl err"
  shows "fileSearch env n q w = (remote (GenerateContent (queryParameters n q)) w, Inl err)"
  using assms by (simp add: fileSearch_def Let_def)

lemma sending_state:
  "ai (setIsQueryLoading True (appendMessage (userMessage m) w)) = ai w"
  "trace (setIsQueryLoading True (appendMessage (userMessage m) w)) = trace w"
  by (simp_all add: setters)

lemma handleSendMessage_crisis:
  assumes "activeRagStoreName (app w) = Some n" "n \<noteq> []" "ai w"
    and "list_ex (\<lambda>keyword. js_includes (toLowerCase env q) keyword) CRISIS_KEYWORDS"
  shows "trace (handleSendMessage env q w) = trace w"
    and "chatHistory (app (handleSendMessage env q w))
      = chatHistory (app w)
        @ [userMessage q,
           \<lparr>role = Model, partText = Some CRISIS_DETECTED, messageChunks = Some [],
            messageIsCrisis = Some True\<rparr>]"
    and "status (app (handleSendMessage env q w)) = status (app w)"
proof -
  let ?w1 = "setIsQueryLoading True (appendMessage (userMessage q) w)"
  have f: "fileSearch env n q ?w1
    = (?w1, Inr \<lparr>resultText = Some CRISIS_DETECTED, groundingChunks = [], isCrisis = True\<rparr>)"
    using assms(3,4) by (intro fileSearch_crisis) (simp_all add: sending_state)
  have h: "handleSendMessage env q w
    = setIsQueryLoading False
        (appendMessage (modelMessage \<lparr>resultText = Some CRISIS_DETECTED, groundingChunks = [],
           isCrisis = True\<rparr>) ?w1)"
    using assms(1,2) f by (simp add: handleSendMessage_def Let_def)
  show "trace (handleSendMessage env q w) = trace w" by (simp add: h setters)
  show "chatHistory (app (handleSendMessage env q w))
      = chatHistory (app w)
        @ [userMessage q,
           \<lparr>role = Model, partText = Some CRISIS_DETECTED, messageChunks = Some [],
            messageIsCrisis = Some True\<rparr>]"
    by (simp add: h setters modelMessage_def)
  show "status (app (handleSendMessage env q w)) = status (app w)" by (simp add: h setters)
qed

lemma handleSendMessage_failed:
  assumes "activeRagStoreName (app w) = Some n" "n \<noteq> []" "ai w"
    and "\<not> list_ex (\<lambda>keyword. js_includes (toLowerCase env q) keyword) CRISIS_KEYWORDS"
    and "generateContent env (trace w) (queryParameters n q) = Inl err"
  shows "chatHistory (app (handleSendMessage env q w))
      = chatHistory (app w) @ [userMessage q, errorMessage]
    \<and> status (app (handleSendMessage env q w)) = Error
    \<and> error (app (handleSendMessage env q w))
        = Some (MSG_QUERY_FAILED @ (if isTruthy err then ascii '': '' @ errorText err else []))
    \<and> isQueryLoading (app (handleSendMessage env q w)) = False
    \<and> activeRagStoreName (app (handleSendMessage env q w)) = Some n"
proof -
  let ?w1 = "setIsQueryLoading True (appendMessage (userMessage q) w)"
  have f: "fileSearch env n q ?w1 = (remote (GenerateContent (queryParameters n q)) ?w1, Inl err)"
    using assms(3,4,5) by (intro fileSearch_throws) (simp_all add: sending_state)
  have h: "handleSendMessage env q w
    = setIsQueryLoading False
        (handleError MSG_QUERY_FAILED err
           (appendMessage errorMessage (remote (GenerateContent (queryParameters n q)) ?w1)))"
    using assms(1,2) f by (simp add: handleSendMessage_def Let_def)
  show ?thesis using assms(1) by (simp add: h handleError_def setters)
qed

subsection \<open>Ending the chat\<close>

lemma handleEndChat_trace:
  assumes "activeRagStoreName (app w) = Some n" "n \<noteq> []" "ai w"
  shows "deleteCalls (added w (handleEndChat env w)) = [n]"
proof -
  have "trace (handleEndChat env w)
      = trace w @ (Remote (FileSearchStoresDelete n)
          # (case fileSearchStoresDelete env (trace w) n of
               None \<Rightarrow> [] | Some e \<Rightarrow> [ConsoleError MSG_DELETE_FAILED]))"
    using assms
    by (simp add: handleEndChat_def deleteRagStore_def setters Let_def split: option.splits)
  from added_append [OF this] show ?thesis by (simp split: option.splits)
qed

lemma handleEndChat_app:
  "app (handleEndChat env w)
   = (app w)\<lparr>activeRagStoreName := None, chatHistory := [], exampleQuestions := [],
            documentName := [], files := [], status := Welcome\<rparr>"
proof -
  define w1 where "w1 =
    (case activeRagStoreName (app w) of
       None \<Rightarrow> w
     | Some n \<Rightarrow>
         if n = [] then w
         else
           (case deleteRagStore env n w of
              (w', None) \<Rightarrow> w'
            | (w', Some err) \<Rightarrow> consoleError MSG_DELETE_FAILED w'))"
  have a: "app w1 = app w"
    unfolding w1_def
    by (auto simp: deleteRagStore_def setters split: option.splits prod.splits if_splits)
  have "handleEndChat env w = setStatus Welcome (setFiles [] (setDocumentName []
           (setExampleQuestions [] (setChatHistory [] (setActiveRagStoreName None w1)))))"
    unfolding handleEndChat_def w1_def Let_def ..
  then show ?thesis using a by (simp add: setters)
qed

subsection \<open>The setup handler\<close>

lemma handleAdminSetupComplete_binding:
  assumes "handleAdminSetupComplete env w = (w', Resolved)"
  shows "status (app w') = Binding \<and> (\<exists>n. activeRagStoreName (app w') = Some n \<and> n \<noteq> [])"
proof -
  from assms obtain w1 w2 where
      p: "provision env (files (app w)) (beginUpload (files (app w)) w1) = (w2, Resolved)"
    and w': "w' = setUploadProgress None w2"
    by (rule handleAdminSetupComplete_resolved)
  from provision_resolved(1,2) [OF p] show ?thesis by (simp add: w' setters)
qed

lemma handleAdminSetupComplete_rejected:
  assumes "isApiKeySelected (app w)" "newGoogleGenAI env = None"
    and "handleAdminSetupComplete env w = (w', Rejected err)"
  obtains w1 w2 where
    "initialize env (setApiKeyError None w) = (w1, None)"
    "provision env (files (app w)) (beginUpload (files (app w)) w1) = (w2, Rejected err)"
    "status (app w2) = Uploading" "isApiKeySelected (app w2)" "apiKeyError (app w2) = None"
    "error (app w2) = error (app w)"
    "w' = setUploadProgress None (provisionFailed env err w2)"
proof -
  obtain w1 where i: "initialize env (setApiKeyError None w) = (w1, None)"
    using assms(2) by (simp add: initialize_def)
  obtain w2 c where p: "provision env (files (app w)) (beginUpload (files (app w)) w1) = (w2, c)"
    by force
  with assms i have c: "c = Rejected err" and w': "w' = setUploadProgress None (provisionFailed env err w2)"
    by (cases c; simp add: handleAdminSetupComplete_def)+
  from initialize_effect [OF i] have a: "app w1 = app (setApiKeyError None w)" by simp
  have b: "status (app (beginUpload (files (app w)) w1)) = Uploading"
    "isApiKeySelected (app (beginUpload (files (app w)) w1))"
    "apiKeyError (app (beginUpload (files (app w)) w1)) = None"
    "error (app (beginUpload (files (app w)) w1)) = error (app w)"
    using assms(1) a by (simp_all add: beginUpload_def setters)
  from provision_not_resolved [OF p] c b
  have "status (app w2) = Uploading" "isApiKeySelected (app w2)" "apiKeyError (app w2) = None"
    "error (app w2) = error (app w)"
    by simp_all
  with i p c w' that show thesis by simp
qed

subsection \<open>The example questions\<close>

lemma length_defaults: "length DEFAULT_QUESTIONS_4 = 4" "length DEFAULT_QUESTIONS_2 = 2"
  by (simp_all add: DEFAULT_QUESTIONS_4_def DEFAULT_QUESTIONS_2_def)

lemma questionsOf_cases:
  "(\<exists>xs. parsedData = JArray xs \<and> questionsOf parsedData = take 4 (stringsOf xs))
   \<or> ((\<forall>xs. parsedData \<noteq> JArray xs) \<and> questionsOf parsedData = DEFAULT_QUESTIONS_4)"
  by (cases parsedData) (simp_all add: questionsOf_def)

lemma length_questionsOf: "length (questionsOf parsedData) \<le> 4"
  by (cases parsedData) (simp_all add: questionsOf_def length_defaults)

text \<open>Every result of an initialized service is a list: the parsed array cut to four
  strings, or one of the two default lists.\<close>

lemma generateExampleQuestions_result:
  assumes "ai w"
  shows "\<exists>qs. snd (generateExampleQuestions env s w) = Inr qs
     \<and> (qs = DEFAULT_QUESTIONS_4 \<or> qs = DEFAULT_QUESTIONS_2
        \<or> (\<exists>xs. qs = take 4 (stringsOf xs)))"
proof -
  have q: "questionsOf p = DEFAULT_QUESTIONS_4 \<or> (\<exists>xs. questionsOf p = take 4 (stringsOf xs))" for p
    using questionsOf_cases [of p] by auto
  show ?thesis
    using assms q
    by (auto simp: generateExampleQuestions_def questionsFailed_def Let_def
        split: sum.splits option.splits)
qed






subsection \<open>The concrete session\<close>

lemmas service_eval = initialize_def createRagStore_def uploadToRagStore_def
  generateExampleQuestions_def questionsFailed_def questionsOf_def fileSearch_def
  deleteRagStore_def

lemmas handler_eval = handleAdminSetupComplete_def provision_def beginUpload_def
  provisionFailed_def isInvalidKey_def handleError_def handlePatientLogin_def
  handleSendMessage_def handleEndChat_def mount_def checkApiKey_def addFiles_def
  clearError_def truthyName_def

lemma demoEnv_fields:
  "toLowerCase demoEnv = asciiLower" "JSON_parse demoEnv = demoParse"
  "newGoogleGenAI demoEnv = None"
  "fileSearchStoresCreate demoEnv tr d = Inr (Some demoStore)"
  "uploadToFileSearchStore demoEnv tr s f = Inr False"
  "operationsGet demoEnv tr s f = Inr True"
  "generateContent demoEnv tr p = Inr \<lparr>responseText = Some demoAnswer, responseChunks = None\<rparr>"
  "fileSearchStoresDelete demoEnv tr s = None"
  "hasSelectedApiKey demoEnv = Some (Inr True)"
  "patience demoEnv = 3"
  by (simp_all add: demoEnv_def)

lemma demoStore_nonempty: "demoStore \<noteq> []"
  by (simp add: demoStore_def ascii_def)

lemma trim_demoAnswer: "trim demoAnswer = demoAnswer"
  by (simp add: demoAnswer_def trim_def js_chars)

lemma welcomed_eval:
  "welcomed = \<lparr>app = \<lparr>status = Welcome, isApiKeySelected = True, apiKeyError = None, error = None,
             uploadProgress = None, activeRagStoreName = None, chatHistory = [],
             isQueryLoading = False, exampleQuestions = [], documentName = [], files = [demoFile],
             patientName = []\<rparr>,
      ai = False, trace = []\<rparr>"
  by (simp add: welcomed_def handler_eval initialWorld_def demoEnv_fields setters)

lemma setup_eval:
  "snd (handleAdminSetupComplete demoEnv welcomed) = Resolved"
  "status (app bound) = Binding" "activeRagStoreName (app bound) = Some demoStore" "ai bound"
  "chatHistory (app bound) = []"
  by (simp_all add: bound_def welcomed_eval handler_eval service_eval demoEnv_fields setters
      demoStore_nonempty trim_demoAnswer demoParse_def Let_def importingProgress_def
      numeral_3_eq_3)

lemma chatting_eval:
  "status (app chatting) = Chatting" "activeRagStoreName (app chatting) = Some demoStore"
  "ai chatting" "error (app chatting) = None"
  "chatHistory (app chatting) = [welcomeMessage (ascii ''Chen'')]"
  using setup_eval
  by (simp_all add: chatting_def handlePatientLogin_def setters bound_def welcomed_eval
      handler_eval service_eval demoEnv_fields demoStore_nonempty trim_demoAnswer demoParse_def
      Let_def importingProgress_def numeral_3_eq_3)

lemma reachable_welcomed: "reachable welcomed"
  unfolding welcomed_def
  by (intro reach_addFiles reach_mount reach_start)
     (simp_all add: initialWorld_def mount_def checkApiKey_fields setters)

lemma reachable_bound: "reachable bound"
  unfolding bound_def
  by (intro reach_setup reachable_welcomed) (simp add: welcomed_eval)

lemma reachable_chatting: "reachable chatting"
  unfolding chatting_def
  by (intro reach_login reachable_bound) (rule setup_eval)

subsection \<open>Uploads of a run that need not complete\<close>

lemma createRagStore_quiet:
  "createRagStore env d w = (w', r) \<Longrightarrow> \<exists>es. trace w' = trace w @ es \<and> uploadCalls es = []"
  by (auto simp: createRagStore_def setters Let_def split: if_splits sum.splits option.splits)

lemma uploadToRagStore_trace_any:
  assumes "uploadToRagStore env s f w = (w', c)"
  shows "\<exists>es. trace w' = trace w @ es
     \<and> (uploadCalls es = [(s, f)] \<or> (uploadCalls es = [] \<and> c \<noteq> Resolved))"
proof (cases "ai w")
  case False
  with assms have "trace w' = trace w @ []" "c \<noteq> Resolved"
    by (auto simp: uploadToRagStore_def)
  then show ?thesis by force
next
  case True
  let ?w1 = "remote (UploadToFileSearchStore s f) w"
  show ?thesis
  proof (cases "uploadToFileSearchStore env (trace w) s f")
    case (Inl e)
    with assms True have "trace w' = trace w @ [Remote (UploadToFileSearchStore s f)]"
      by (auto simp: uploadToRagStore_def setters Let_def)
    then show ?thesis by force
  next
    case (Inr d)
    with assms True have "pollOperation env s f (patience env) d ?w1 = (w', c)"
      by (simp add: uploadToRagStore_def Let_def)
    from pollOperation_trace [OF this] obtain es where
      "trace w' = trace ?w1 @ es" "uploadCalls es = []" by blast
    then have "trace w' = trace w @ (Remote (UploadToFileSearchStore s f) # es)
        \<and> uploadCalls (Remote (UploadToFileSearchStore s f) # es) = [(s, f)]"
      by (simp add: setters)
    then show ?thesis by blast
  qed
qed

lemma uploadFiles_trace_any:
  "uploadFiles env s n i fs w = (w', c) \<Longrightarrow>
   \<exists>es k. trace w' = trace w @ es \<and> k \<le> length fs \<and> uploadCalls es = map (Pair s) (take k fs)"
proof (induction fs arbitrary: i w)
  case Nil
  then show ?case by simp
next
  case (Cons f fs)
  let ?q = "importingProgress (uploadProgress (app w)) i n f"
  let ?w1 = "setUploadProgress (Some ?q) w"
  obtain w2 c2 where u: "uploadToRagStore env s f ?w1 = (w2, c2)" by force
  from uploadToRagStore_trace_any [OF u] obtain e1 where
    e1: "trace w2 = trace ?w1 @ e1"
      "uploadCalls e1 = [(s, f)] \<or> (uploadCalls e1 = [] \<and> c2 \<noteq> Resolved)"
    by blast
  have t1: "trace w2 = trace w @ (SetUploadProgress (Some ?q) # e1)"
    using e1(1) by (simp add: setters)
  show ?case
  proof (cases "c2 = Resolved")
    case True
    with Cons.prems u have "uploadFiles env s n (i + 1) fs w2 = (w', c)"
      by (simp add: Let_def)
    from Cons.IH [OF this] obtain e2 k where
      e2: "trace w' = trace w2 @ e2" "k \<le> length fs" "uploadCalls e2 = map (Pair s) (take k fs)"
      by blast
    from e1(2) True have c1: "uploadCalls e1 = [(s, f)]" by simp
    have "trace w' = trace w @ (SetUploadProgress (Some ?q) # e1 @ e2)
        \<and> Suc k \<le> length (f # fs)
        \<and> uploadCalls (SetUploadProgress (Some ?q) # e1 @ e2) = map (Pair s) (take (Suc k) (f # fs))"
      using t1 e2 c1 by (simp add: uploadCalls_append)
    then show ?thesis by blast
  next
    case False
    with Cons.prems u have w': "w' = w2"
      by (cases c2) (auto simp: Let_def)
    from e1(2) show ?thesis
    proof
      assume "uploadCalls e1 = [(s, f)]"
      then have "trace w' = trace w @ (SetUploadProgress (Some ?q) # e1)
          \<and> Suc 0 \<le> length (f # fs)
          \<and> uploadCalls (SetUploadProgress (Some ?q) # e1) = map (Pair s) (take (Suc 0) (f # fs))"
        using t1 by (simp add: w')
      then show ?thesis by blast
    next
      assume "uploadCalls e1 = [] \<and> c2 \<noteq> Resolved"
      then have "trace w' = trace w @ (SetUploadProgress (Some ?q) # e1)
          \<and> 0 \<le> length (f # fs)
          \<and> uploadCalls (SetUploadProgress (Some ?q) # e1) = map (Pair s) (take 0 (f # fs))"
        using t1 by (simp add: w')
      then show ?thesis by blast
    qed
  qed
qed

lemma provision_trace_any:
  assumes "provision env fs w = (w', c)"
  shows "\<exists>es n k. trace w' = trace w @ es \<and> k \<le> length fs
     \<and> uploadCalls es = map (Pair n) (take k fs)"
  using assms
proof (cases rule: provision_steps)
  case (create_failed e)
  from createRagStore_quiet [OF create_failed(1)] obtain es where
    "trace w' = trace w @ es" "uploadCalls es = []" by blast
  then have "trace w' = trace w @ es \<and> 0 \<le> length fs \<and> uploadCalls es = map (Pair []) (take 0 fs)"
    by simp
  then show ?thesis by blast
next
  case (upload_stopped w1 n)
  from createRagStore_quiet [OF upload_stopped(1)] obtain e1 where
    e1: "trace w1 = trace w @ e1" "uploadCalls e1 = []" by blast
  from uploadFiles_trace_any [OF upload_stopped(2)] obtain e2 k where
    e2: "trace w' = trace (setUploadProgress (Some \<lparr>current = 1, total = length fs + 2,
            message = Some MSG_PROCESSING, fileName = None\<rparr>) w1) @ e2"
      "k \<le> length fs" "uploadCalls e2 = map (Pair n) (take k fs)"
    by blast
  let ?es = "e1 @ SetUploadProgress (Some \<lparr>current = 1, total = length fs + 2,
            message = Some MSG_PROCESSING, fileName = None\<rparr>) # e2"
  have "trace w' = trace w @ ?es \<and> k \<le> length fs \<and> uploadCalls ?es = map (Pair n) (take k fs)"
    using e1 e2 by (simp add: setters uploadCalls_append)
  then show ?thesis by blast
next
  case (questions_failed w1 n w3 e)
  let ?w4 = "setUploadProgress (Some \<lparr>current = length fs + 1, total = length fs + 2,
            message = Some MSG_GENERATING, fileName = Some []\<rparr>) w3"
  have "ai ?w4"
    using createRagStore_name [OF questions_failed(1)] createRagStore_frame [OF questions_failed(1)]
      uploadFiles_fields(6) [OF questions_failed(2)]
    by (simp add: setters)
  from generateExampleQuestions_result [OF this, of env n] questions_failed(3)
  show ?thesis by simp
next
  case (finished w1 n w3 w5 qs)
  with assms have "provision env fs w = (w', Resolved)" by simp
  from provision_trace [OF this] obtain m es where
    "trace w' = trace w @ es" "uploadCalls es = map (Pair m) fs" by blast
  then have "trace w' = trace w @ es \<and> length fs \<le> length fs
      \<and> uploadCalls es = map (Pair m) (take (length fs) fs)"
    by simp
  then show ?thesis by blast
qed

text \<open>Any run of the setup handler uploads, to one store and in the order of the array,
  the first files of the array.\<close>

lemma setup_uploads_prefix:
  assumes "handleAdminSetupComplete env w = (w', c)"
  shows "\<exists>n k. k \<le> length (files (app w))
     \<and> uploadCalls (added w w') = map (Pair n) (take k (files (app w)))"
proof -
  have quiet: "\<exists>n k. k \<le> length (files (app w))
     \<and> uploadCalls (added w w') = map (Pair n) (take k (files (app w)))"
    if "trace w' = trace w @ es" "uploadCalls es = []" for es
  proof -
    from added_append [OF that(1)] that(2)
    have "0 \<le> length (files (app w))
      \<and> uploadCalls (added w w') = map (Pair []) (take 0 (files (app w)))"
      by simp
    then show ?thesis by blast
  qed
  show ?thesis
  proof (cases "isApiKeySelected (app w)")
    case False
    with assms have "trace w' = trace w @ []"
      by (auto simp: handleAdminSetupComplete_def setters)
    then show ?thesis by (rule quiet) simp
  next
    case True
    obtain w1 r where i: "initialize env (setApiKeyError None w) = (w1, r)" by force
    from initialize_effect [OF i] have t1: "trace w1 = trace w" by (simp add: setters)
    show ?thesis
    proof (cases r)
      case (Some err)
      with assms True i have "trace w' = trace w @ [ConsoleError MSG_INIT_FAILED]"
        using t1 by (auto simp: handleAdminSetupComplete_def handleError_def setters)
      then show ?thesis by (rule quiet) simp
    next
      case None
      let ?fs = "files (app w)"
      let ?p0 = "\<lparr>current = 0, total = length ?fs + 2, message = Some MSG_INITIALIZING_DB,
             fileName = None\<rparr>"
      have t0: "trace (beginUpload ?fs w1) = trace w @ [SetUploadProgress (Some ?p0)]"
        using t1 by (simp add: beginUpload_def setters)
      obtain w2 c2 where p: "provision env ?fs (beginUpload ?fs w1) = (w2, c2)" by force
      from provision_trace_any [OF p] obtain es n k where
        es: "trace w2 = trace (beginUpload ?fs w1) @ es" "k \<le> length ?fs"
          "uploadCalls es = map (Pair n) (take k ?fs)"
        by blast
      have "\<exists>tl. trace w' = trace w2 @ tl \<and> uploadCalls tl = []"
        using assms True i None p
        by (cases c2)
           (auto simp: handleAdminSetupComplete_def provisionFailed_def handleError_def setters)
      then obtain tl where tl: "trace w' = trace w2 @ tl" "uploadCalls tl = []" by blast
      have "trace w' = trace w @ (SetUploadProgress (Some ?p0) # es @ tl)"
        using t0 es(1) tl(1) by simp
      from added_append [OF this] es(3) tl(2)
      have "uploadCalls (added w w') = map (Pair n) (take k ?fs)"
        by (simp add: uploadCalls_append)
      with es(2) show ?thesis by blast
    qed
  qed
qed

subsection \<open>Markup rendered again\<close>

lemma inert_consts: "inert P_OPEN" "inert P_CLOSE" "inert BR" "inert []"
  by (simp_all add: inert_def hasDelimiter_def P_OPEN_def P_CLOSE_def BR_def js_chars)

lemma inert_append: "inert (a @ b) \<longleftrightarrow> inert a \<and> inert b"
  by (auto simp: inert_def hasDelimiter_def)

lemma hd_P_OPEN: "hd (P_OPEN @ s) = 60" "hd P_OPEN = 60" "P_OPEN \<noteq> []"
  by (simp_all add: P_OPEN_def ascii_def)

lemma okState_flushPara: "okState st \<Longrightarrow> okState (flushPara st)"
  by (auto simp: okState_def flushPara_def inert_append inert_consts hd_P_OPEN hd_append)

lemma okState_renderLine:
  assumes "okState st" "noSpecialLine l" "NL \<notin> set l"
  shows "okState (renderLine st l)"
proof (cases "isBlank l")
  case True
  then have "renderLine st l = flushPara st"
    using assms by (intro renderLine_blank) (simp_all add: okState_def)
  then show ?thesis using assms(1) by (simp add: okState_flushPara)
next
  case False
  then have "paragraphLine l"
    using assms(2) by (intro plainLine_paragraphLine) (simp add: plainLine_def)
  then have "renderLine st l =
      st\<lparr>paraBuffer := paraBuffer st @ (if paraBuffer st \<noteq> [] then BR else []) @ l\<rparr>"
    using assms(1) by (intro renderLine_paragraph) (simp_all add: okState_def)
  moreover have "inert l" using assms by (simp add: inert_def noSpecialLine_def)
  ultimately show ?thesis using assms(1) by (simp add: okState_def inert_append inert_consts)
qed

lemma okState_foldl:
  "okState st \<Longrightarrow> list_all noSpecialLine ls \<Longrightarrow> (\<forall>l\<in>set ls. NL \<notin> set l) \<Longrightarrow>
   okState (foldl renderLine st ls)"
  by (induction ls arbitrary: st) (simp_all add: okState_renderLine)

lemma okState_initial: "okState initialRender"
  by (simp add: okState_def initialRender_def inert_consts)

lemma noSpecial_output:
  assumes "noSpecial t"
  shows "inert (renderMarkdown t) \<and> (renderMarkdown t = [] \<or> hd (renderMarkdown t) = 60)"
proof (cases "t = []")
  case True
  then show ?thesis by (simp add: renderMarkdown_def inert_consts)
next
  case False
  have "okState (foldl renderLine initialRender (split_nl t))"
    using assms split_nl_no_NL [of _ t]
    by (intro okState_foldl okState_initial) (auto simp: noSpecial_def)
  then have "okState (flushPara (foldl renderLine initialRender (split_nl t)))"
    by (rule okState_flushPara)
  then show ?thesis using False by (simp add: renderMarkdown_def okState_def flushList_def)
qed

lemma not_ws_60: "\<not> isWhiteSpace 60" "\<not> isDigit 60"
  by (simp_all add: js_chars)

lemma markup_is_plainText:
  assumes "inert r" "r \<noteq> []" "hd r = 60"
  shows "plainText r"
proof -
  obtain cs where r: "r = 60 # cs" using assms(2,3) by (cases r) auto
  have "\<not> isHeading r" by (simp add: r isHeading_def startsWith_def ascii_def)
  moreover have "isOl r = None" by (simp add: r isOl_def not_ws_60)
  moreover have "isUl r = None" by (cases cs) (simp_all add: r isUl_def not_ws_60 js_chars)
  moreover have "\<not> isBlank r" by (auto simp: r isBlank_iff not_ws_60)
  ultimately show ?thesis
    using assms(1)
    by (simp add: plainText_def split_nl_single inert_def plainLine_def noSpecialLine_def)
qed

lemma rerender_markup:
  assumes "inert r" "r \<noteq> []" "hd r = 60"
  shows "renderMarkdown r = P_OPEN @ r @ P_CLOSE"
proof -
  have "plainText r" using assms by (rule markup_is_plainText)
  then have "renderMarkdown r = P_OPEN @ brForNewline r @ P_CLOSE"
    unfolding plainText_def by (intro renderMarkdown_paragraph list_all_plain_paragraph)
  then show ?thesis using assms(1) by (simp add: brForNewline_id inert_def)
qed

lemma wrapped_differs: "P_OPEN @ r @ P_CLOSE \<noteq> r"
proof
  assume "P_OPEN @ r @ P_CLOSE = r"
  then have "length (P_OPEN @ r @ P_CLOSE) = length r" by simp
  then show False using hd_P_OPEN(3) by simp
qed

lemma delimiter_not_blank:
  assumes "d = STAR \<or> d = UNDERSCORE \<or> d = BACKTICK"
  shows "\<not> isBlank (a @ d # b)"
proof -
  have "\<not> isWhiteSpace d" using assms by (auto simp: js_chars)
  then show ?thesis by (auto simp: isBlank_iff)
qed

subsection \<open>Blank input\<close>

lemma blank_noSpecialLine:
  assumes "isBlank l"
  shows "noSpecialLine l"
proof -
  from assms have w: "\<forall>c\<in>set l. isWhiteSpace c" by (simp add: isBlank_iff)
  then have d: "dropWhile isWhiteSpace l = []" by simp
  have "\<not> isWhiteSpace 35" "\<not> isWhiteSpace STAR" "\<not> isWhiteSpace UNDERSCORE"
      "\<not> isWhiteSpace BACKTICK"
    by (simp_all add: js_chars)
  with w have n: "35 \<notin> set l" "STAR \<notin> set l" "UNDERSCORE \<notin> set l" "BACKTICK \<notin> set l"
    by auto
  have "\<not> isHeading l"
  proof
    assume "isHeading l"
    then have "prefix [35] l"
      by (auto simp: isHeading_def startsWith_def ascii_def prefix_def)
    then have "35 \<in> set l" by (auto simp: prefix_def)
    with n(1) show False by simp
  qed
  moreover have "\<not> hasDelimiter l" using n by (simp add: hasDelimiter_def)
  moreover have "isOl l = None" by (simp add: isOl_def d)
  moreover have "isUl l = None" by (simp add: isUl_def d)
  ultimately show ?thesis by (simp add: noSpecialLine_def)
qed

lemma foldl_blank_lines:
  "list_all isBlank ls \<Longrightarrow> foldl renderLine initialRender ls = initialRender"
proof (induction ls)
  case Nil
  show ?case by simp
next
  case (Cons l ls)
  then have "renderLine initialRender l = flushPara initialRender"
    by (intro renderLine_blank blank_noSpecialLine) (simp_all add: initialRender_def)
  then have "renderLine initialRender l = initialRender"
    by (simp add: flushPara_def initialRender_def)
  with Cons show ?case by simp
qed

lemma renderMarkdown_blank:
  assumes "list_all isBlank (split_nl t)"
  shows "renderMarkdown t = []"
proof -
  have "html (flushList (flushPara initialRender)) = []"
    by (simp add: flushPara_def flushList_def initialRender_def)
  then show ?thesis
    unfolding renderMarkdown_def foldl_blank_lines [OF assms] by simp
qed

section \<open>Properties of the renderer\<close>

text \<open>
  Claim C10. For the empty input string the renderer returns empty markup, with no paragraph
  container in it, and so it does for an input of blank lines only; flushing an empty
  paragraph buffer leaves the state as it is, and so does flushing when no list is open.
\<close>

theorem C10_empty_input_and_empty_flushes:
  "renderMarkdown [] = []
   \<and> (list_all isBlank (split_nl t) \<longrightarrow> renderMarkdown t = [])
   \<and> (paraBuffer st = [] \<longrightarrow> flushPara st = st)
   \<and> (listType st = None \<longrightarrow> flushList st = st)"
proof -
  have "renderMarkdown [] = []" by (simp add: renderMarkdown_def)
  then show ?thesis
    using renderMarkdown_blank [of t] by (simp add: flushPara_def flushList_def)
qed

theorem C10_witness:
  "paraBuffer initialRender = [] \<and> listType initialRender = None
   \<and> list_all isBlank (split_nl [32, 10, 9])
   \<and> renderMarkdown [] = []
   \<and> renderMarkdown [32, 10, 9] = []
   \<and> flushPara initialRender = initialRender
   \<and> flushList initialRender = initialRender"
proof -
  have b: "list_all isBlank (split_nl [32, 10, 9])"
    by (simp add: isBlank_def trim_def js_chars)
  from C10_empty_input_and_empty_flushes [of "[32, 10, 9]" initialRender] b
  show ?thesis by (simp add: initialRender_def)
qed

text \<open>
  Claim C7. An input in which no line has a heading prefix, matches a list pattern, holds
  an inline delimiter character or is blank is rendered as one paragraph container around
  the input itself, in which each line feed is replaced by the line-break marker and every
  other character stays where it is.
\<close>

theorem C7_plain_text_is_one_paragraph:
  assumes "plainText t"
  shows "renderMarkdown t = P_OPEN @ brForNewline t @ P_CLOSE"
  using assms unfolding plainText_def
  by (intro renderMarkdown_paragraph list_all_plain_paragraph)

theorem C7_witness:
  \<open>plainText clinicHours
   \<and> renderMarkdown clinicHours
       = ascii ''<p class="my-2">Clinic hours: 9-5<br/>Call 02-1234 <today></p>''\<close>
proof -
  have h: "plainText clinicHours"
    by (simp add: clinicHours_def plainText_def plainLine_def noSpecialLine_def isHeading_def
        hasDelimiter_def isOl_def isUl_def isBlank_def trim_def startsWith_def js_chars)
  have e: \<open>P_OPEN @ brForNewline clinicHours @ P_CLOSE
           = ascii ''<p class="my-2">Clinic hours: 9-5<br/>Call 02-1234 <today></p>''\<close>
    by (simp add: clinicHours_def brForNewline_def P_OPEN_def P_CLOSE_def BR_def js_chars)
  from C7_plain_text_is_one_paragraph [OF h] h e show ?thesis by (simp only:)
qed

text \<open>
  Claim C8, as the code has it. The renderer is a total function of its input string.
  Rendering is not idempotent on content without special characters: the markup of such
  content, rendered again, is wrapped in one more paragraph container, so rendering twice
  equals rendering once exactly when the markup is empty. An unterminated construct whose
  delimiter character stands alone on its line (one star, underscore or backtick, the
  line being no heading and no list item) is rendered literally.
\<close>

theorem C8_rendering_again_wraps_again:
  "(noSpecial t \<longrightarrow>
      renderMarkdown (renderMarkdown t)
        = (if renderMarkdown t = [] then [] else P_OPEN @ renderMarkdown t @ P_CLOSE)
      \<and> (renderMarkdown (renderMarkdown t) = renderMarkdown t \<longleftrightarrow> renderMarkdown t = []))
   \<and> ((d = STAR \<or> d = UNDERSCORE \<or> d = BACKTICK) \<and> inert a \<and> inert b
        \<and> \<not> isHeading (a @ d # b) \<and> isOl (a @ d # b) = None \<and> isUl (a @ d # b) = None \<longrightarrow>
      renderMarkdown (a @ d # b) = P_OPEN @ a @ d # b @ P_CLOSE)"
proof (intro conjI impI)
  assume n: "noSpecial t"
  show "renderMarkdown (renderMarkdown t)
        = (if renderMarkdown t = [] then [] else P_OPEN @ renderMarkdown t @ P_CLOSE)"
  proof (cases "renderMarkdown t = []")
    case True
    then show ?thesis by (simp add: renderMarkdown_def)
  next
    case False
    with noSpecial_output [OF n] show ?thesis by (simp add: rerender_markup)
  qed
  then show "renderMarkdown (renderMarkdown t) = renderMarkdown t \<longleftrightarrow> renderMarkdown t = []"
    using wrapped_differs [of "renderMarkdown t"] by (cases "renderMarkdown t = []") simp_all
next
  assume h: "(d = STAR \<or> d = UNDERSCORE \<or> d = BACKTICK) \<and> inert a \<and> inert b
        \<and> \<not> isHeading (a @ d # b) \<and> isOl (a @ d # b) = None \<and> isUl (a @ d # b) = None"
  then have nl: "NL \<notin> set (a @ d # b)" by (auto simp: inert_def js_chars)
  have "inline (a @ d # b) = a @ d # b" using h by (intro inline_lone) (simp_all add: inert_def)
  then have "paragraphLine (a @ d # b)"
    using h delimiter_not_blank [of d a b] by (simp add: paragraphLine_def)
  then have "renderMarkdown (a @ d # b) = P_OPEN @ brForNewline (a @ d # b) @ P_CLOSE"
    by (intro renderMarkdown_paragraph) (simp add: split_nl_single [OF nl])
  then show "renderMarkdown (a @ d # b) = P_OPEN @ a @ d # b @ P_CLOSE"
    using nl by (simp add: brForNewline_id)
qed


lemmas render_eval = renderMarkdown_def renderLine_def initialRender_def flushPara_def
  flushList_def emit_def inline_def boldAt_def italicAt_def codeAt_def alternatives_def
  delimitedAt_def isOl_def isUl_def restOfLine_def trim_def startsWith_def STRONG_def EM_def
  CODE_def P_OPEN_def P_CLOSE_def BR_def Let_def js_chars

theorem C8_counterexample:
  \<open>noSpecial (ascii ''a'')
   \<and> renderMarkdown (ascii ''a'') = ascii ''<p class="my-2">a</p>''
   \<and> renderMarkdown (renderMarkdown (ascii ''a''))
       = ascii ''<p class="my-2"><p class="my-2">a</p></p>''
   \<and> renderMarkdown (renderMarkdown (ascii ''a'')) \<noteq> renderMarkdown (ascii ''a'')\<close>
proof -
  have n: "noSpecial (ascii ''a'')"
    by (simp add: noSpecial_def noSpecialLine_def isHeading_def hasDelimiter_def isOl_def
        isUl_def startsWith_def js_chars)
  have r1: \<open>renderMarkdown (ascii ''a'') = ascii ''<p class="my-2">a</p>''\<close>
    by (simp add: render_eval)
  have r2: \<open>renderMarkdown (ascii ''<p class="my-2">a</p>'')
            = ascii ''<p class="my-2"><p class="my-2">a</p></p>''\<close>
    by (simp add: render_eval)
  have d: \<open>ascii ''<p class="my-2"><p class="my-2">a</p></p>'' \<noteq> ascii ''<p class="my-2">a</p>''\<close>
    by (simp add: ascii_def)
  show ?thesis using n d by (simp only: r1 r2) simp
qed

theorem C8_witness:
  \<open>noSpecial (ascii ''a'')
   \<and> renderMarkdown (renderMarkdown (ascii ''a''))
       = P_OPEN @ renderMarkdown (ascii ''a'') @ P_CLOSE
   \<and> renderMarkdown (ascii ''2 * 3'') = ascii ''<p class="my-2">2 * 3</p>''\<close>
proof -
  have n: "noSpecial (ascii ''a'')"
    by (simp add: noSpecial_def noSpecialLine_def isHeading_def hasDelimiter_def isOl_def
        isUl_def startsWith_def js_chars)
  have ne: "renderMarkdown (ascii ''a'') \<noteq> []"
    by (simp add: render_eval)
  have s: "ascii ''2 * 3'' = ascii ''2 '' @ STAR # ascii '' 3''"
    by (simp add: js_chars)
  have h: "(STAR = STAR \<or> STAR = UNDERSCORE \<or> STAR = BACKTICK) \<and> inert (ascii ''2 '')
      \<and> inert (ascii '' 3'')
      \<and> \<not> isHeading (ascii ''2 '' @ STAR # ascii '' 3'')
      \<and> isOl (ascii ''2 '' @ STAR # ascii '' 3'') = None
      \<and> isUl (ascii ''2 '' @ STAR # ascii '' 3'') = None"
    by (simp add: inert_def hasDelimiter_def isHeading_def isOl_def isUl_def startsWith_def
        js_chars)
  have e: \<open>P_OPEN @ ascii ''2 '' @ STAR # ascii '' 3'' @ P_CLOSE = ascii ''<p class="my-2">2 * 3</p>''\<close>
    by (simp add: P_OPEN_def P_CLOSE_def js_chars)
  from C8_rendering_again_wraps_again [of "ascii ''a''" STAR "ascii ''2 ''" "ascii '' 3''"] n ne h
  show ?thesis by (simp only: s e) simp
qed

text \<open>An unmatched pair of stars is not rendered literally: the expression for bold text
  does not match it, the expression for italic text matches the two stars around an empty
  group.\<close>

lemma unmatched_double_star_becomes_empty_emphasis:
  \<open>renderMarkdown (ascii ''a ** b'') = ascii ''<p class="my-2">a <em></em> b</p>''\<close>
  by (simp add: render_eval)

section \<open>Properties of the service and of the session\<close>

text \<open>
  Claim C1. For a query whose lower-cased form contains a crisis keyword, \<open>fileSearch\<close>
  leaves the trace as it is, so the remote gateway is not invoked, and once the service
  is initialized it returns the result with \<open>isCrisis = true\<close>, the fixed text and no
  grounding chunks. A query is sent from the chat screen, where the service is
  initialized: there the call returns this result, and the handler appends the user's
  message and the crisis message and adds nothing to the trace.
\<close>

theorem C1_crisis_query_is_answered_locally:
  assumes "\<exists>k\<in>set CRISIS_KEYWORDS. \<exists>pre post. toLowerCase env q = pre @ k @ post"
  shows "fst (fileSearch env n q w) = w
    \<and> (ai w \<longrightarrow>
         snd (fileSearch env n q w)
           = Inr \<lparr>resultText = Some CRISIS_DETECTED, groundingChunks = [], isCrisis = True\<rparr>)
    \<and> (reachable w \<and> status (app w) = Chatting \<longrightarrow>
         fileSearch env n q w
           = (w, Inr \<lparr>resultText = Some CRISIS_DETECTED, groundingChunks = [], isCrisis = True\<rparr>)
         \<and> trace (handleSendMessage env q w) = trace w
         \<and> generateContentCalls (added w (handleSendMessage env q w)) = []
         \<and> chatHistory (app (handleSendMessage env q w))
             = chatHistory (app w)
               @ [userMessage q,
                  \<lparr>role = Model, partText = Some CRISIS_DETECTED, messageChunks = Some [],
                   messageIsCrisis = Some True\<rparr>])"
proof -
  from assms
  have c: "list_ex (\<lambda>keyword. js_includes (toLowerCase env q) keyword) CRISIS_KEYWORDS"
    by (simp add: crisis_iff)
  have 1: "fst (fileSearch env n q w) = w"
    using c by (simp add: fileSearch_def)
  have 2: "snd (fileSearch env n q w)
      = Inr \<lparr>resultText = Some CRISIS_DETECTED, groundingChunks = [], isCrisis = True\<rparr>"
    if "ai w"
    using fileSearch_crisis [OF that c, of n] by simp
  have 3: "fileSearch env n q w
        = (w, Inr \<lparr>resultText = Some CRISIS_DETECTED, groundingChunks = [], isCrisis = True\<rparr>)
      \<and> trace (handleSendMessage env q w) = trace w
      \<and> generateContentCalls (added w (handleSendMessage env q w)) = []
      \<and> chatHistory (app (handleSendMessage env q w))
          = chatHistory (app w)
            @ [userMessage q,
               \<lparr>role = Model, partText = Some CRISIS_DETECTED, messageChunks = Some [],
                messageIsCrisis = Some True\<rparr>]"
    if r: "reachable w" and s: "status (app w) = Chatting"
  proof -
    from reachable_active_store [OF r] s
    obtain m where m: "activeRagStoreName (app w) = Some m" "m \<noteq> []" and a: "ai w"
      by (auto simp: truthyName_def split: option.splits)
    have t: "trace (handleSendMessage env q w) = trace w"
      using m a c by (rule handleSendMessage_crisis)
    then have "added w (handleSendMessage env q w) = []" by (simp add: added_def)
    with t fileSearch_crisis [OF a c] handleSendMessage_crisis(2) [OF m a c]
    show ?thesis by simp
  qed
  from 1 2 3 show ?thesis by blast
qed

theorem C1_witness:
  "reachable chatting \<and> status (app chatting) = Chatting
   \<and> toLowerCase demoEnv crisisQuery = [25105, 24819] @ [33258, 27578] @ []
   \<and> fileSearch demoEnv demoStore crisisQuery chatting
       = (chatting, Inr \<lparr>resultText = Some CRISIS_DETECTED, groundingChunks = [], isCrisis = True\<rparr>)
   \<and> trace (handleSendMessage demoEnv crisisQuery chatting) = trace chatting
   \<and> toLowerCase demoEnv (ascii ''Hurt MYSELF'') = [] @ ascii ''hurt myself'' @ []
   \<and> fileSearch demoEnv demoStore (ascii ''Hurt MYSELF'') chatting
       = (chatting, Inr \<lparr>resultText = Some CRISIS_DETECTED, groundingChunks = [], isCrisis = True\<rparr>)"
proof -
  have l: "toLowerCase demoEnv crisisQuery = [25105, 24819] @ [33258, 27578] @ []"
    by (simp add: demoEnv_fields asciiLower_def crisisQuery_def)
  have k: "[33258, 27578] \<in> set CRISIS_KEYWORDS"
    by (simp add: CRISIS_KEYWORDS_def)
  from k l have 1: "\<exists>k\<in>set CRISIS_KEYWORDS. \<exists>pre post. toLowerCase demoEnv crisisQuery = pre @ k @ post"
    by blast
  have l': "toLowerCase demoEnv (ascii ''Hurt MYSELF'') = [] @ ascii ''hurt myself'' @ []"
    by (simp add: demoEnv_fields asciiLower_def ascii_def)
  have k': "ascii ''hurt myself'' \<in> set CRISIS_KEYWORDS"
    by (simp add: CRISIS_KEYWORDS_def)
  from k' l'
  have 2: "\<exists>k\<in>set CRISIS_KEYWORDS. \<exists>pre post. toLowerCase demoEnv (ascii ''Hurt MYSELF'') = pre @ k @ post"
    by blast
  from C1_crisis_query_is_answered_locally [OF 1, of demoStore chatting]
    C1_crisis_query_is_answered_locally [OF 2, of demoStore chatting]
    reachable_chatting chatting_eval(1) l l'
  show ?thesis by simp
qed

text \<open>
  Claim C2, as the code has it. In every reachable state with status Binding or Chatting a
  store is active. A completed setup enters Binding with the new store active, the login
  enters Chatting and keeps the store, and ending the chat enters Welcome and clears it;
  the transition into Error and its acknowledgement leave the active store as it is.
\<close>

theorem C2_store_is_active_while_binding_or_chatting:
  "(reachable w \<and> (status (app w) = Binding \<or> status (app w) = Chatting)
      \<longrightarrow> (\<exists>n. activeRagStoreName (app w) = Some n \<and> n \<noteq> []))
   \<and> (handleAdminSetupComplete env w = (w', Resolved)
      \<longrightarrow> status (app w') = Binding \<and> (\<exists>n. activeRagStoreName (app w') = Some n \<and> n \<noteq> []))
   \<and> status (app (handlePatientLogin patient phone w)) = Chatting
   \<and> activeRagStoreName (app (handlePatientLogin patient phone w)) = activeRagStoreName (app w)
   \<and> status (app (handleEndChat env w)) = Welcome
   \<and> activeRagStoreName (app (handleEndChat env w)) = None
   \<and> status (app (handleError m err w)) = Error
   \<and> activeRagStoreName (app (handleError m err w)) = activeRagStoreName (app w)
   \<and> status (app (clearError w)) = Welcome
   \<and> activeRagStoreName (app (clearError w)) = activeRagStoreName (app w)"
proof -
  have "\<exists>n. activeRagStoreName (app w) = Some n \<and> n \<noteq> []"
    if "reachable w" "status (app w) = Binding \<or> status (app w) = Chatting"
    using reachable_active_store [OF that(1)] that(2)
    by (auto simp: truthyName_def split: option.splits)
  moreover have "status (app w') = Binding \<and> (\<exists>n. activeRagStoreName (app w') = Some n \<and> n \<noteq> [])"
    if "handleAdminSetupComplete env w = (w', Resolved)"
    using that by (rule handleAdminSetupComplete_binding)
  ultimately show ?thesis
    by (simp add: handlePatientLogin_def handleEndChat_fields handleError_fields clearError_def
        setters)
qed

theorem C2_witness:
  "reachable chatting \<and> status (app chatting) = Chatting
   \<and> activeRagStoreName (app chatting) = Some demoStore
   \<and> handleAdminSetupComplete demoEnv welcomed = (bound, Resolved)
   \<and> status (app bound) = Binding \<and> activeRagStoreName (app bound) = Some demoStore"
proof -
  have h: "handleAdminSetupComplete demoEnv welcomed = (bound, Resolved)"
    using setup_eval(1) by (simp add: bound_def prod_eq_iff)
  from C2_store_is_active_while_binding_or_chatting [where w = chatting]
    C2_store_is_active_while_binding_or_chatting
      [where w = welcomed and env = demoEnv and w' = bound]
    reachable_chatting chatting_eval(1,2) h setup_eval(2,3)
  show ?thesis by simp
qed

theorem C2_counterexample:
  "reachable afterFailedQuery \<and> status (app afterFailedQuery) = Error
   \<and> activeRagStoreName (app afterFailedQuery) = Some demoStore
   \<and> reachable (clearError afterFailedQuery)
   \<and> status (app (clearError afterFailedQuery)) = Welcome
   \<and> activeRagStoreName (app (clearError afterFailedQuery)) = Some demoStore"
proof -
  have l: "toLowerCase failingEnv (ascii ''opening hours?'') = ascii ''opening hours?''"
    by (simp add: failingEnv_def demoEnv_fields asciiLower_def ascii_def)
  have n: "\<not> list_ex (\<lambda>keyword. js_includes (toLowerCase failingEnv (ascii ''opening hours?'')) keyword)
      CRISIS_KEYWORDS"
    unfolding l by (simp add: CRISIS_KEYWORDS_def ascii_def)
  have g: "generateContent failingEnv (trace chatting) (queryParameters demoStore (ascii ''opening hours?''))
      = Inl unavailable"
    by (simp add: failingEnv_def)
  from handleSendMessage_failed [OF chatting_eval(2) demoStore_nonempty chatting_eval(3) n g]
  have s: "status (app afterFailedQuery) = Error"
    "activeRagStoreName (app afterFailedQuery) = Some demoStore"
    by (simp_all add: afterFailedQuery_def)
  have r: "reachable afterFailedQuery"
    unfolding afterFailedQuery_def by (intro reach_send reachable_chatting) (rule chatting_eval)
  from r s(1) have "reachable (clearError afterFailedQuery)" by (rule reach_clearError)
  with r s show ?thesis by (simp add: clearError_def setters)
qed

text \<open>
  Claim C3, as the code has it. When the remote query call made from the chat throws, the
  user's message and exactly one model message with the fixed apology are appended to the
  history; the handler then calls \<open>handleError\<close>, so the status becomes Error and the
  error text of the full-screen error is set. The active store stays as it is and the
  loading flag is cleared.
\<close>

theorem C3_failed_query_appends_apology_and_enters_error:
  assumes "reachable w" "status (app w) = Chatting" "activeRagStoreName (app w) = Some n"
    and "\<not> list_ex (\<lambda>keyword. js_includes (toLowerCase env q) keyword) CRISIS_KEYWORDS"
    and "generateContent env (trace w) (queryParameters n q) = Inl err"
  shows "chatHistory (app (handleSendMessage env q w))
      = chatHistory (app w) @ [userMessage q, errorMessage]
    \<and> role errorMessage = Model \<and> partText errorMessage = Some MSG_APOLOGY
    \<and> status (app (handleSendMessage env q w)) = Error
    \<and> error (app (handleSendMessage env q w))
        = Some (MSG_QUERY_FAILED @ (if isTruthy err then ascii '': '' @ errorText err else []))
    \<and> isQueryLoading (app (handleSendMessage env q w)) = False
    \<and> activeRagStoreName (app (handleSendMessage env q w)) = Some n"
proof -
  from reachable_active_store [OF assms(1)] assms(2,3)
  have "n \<noteq> []" "ai w" by (auto simp: truthyName_def)
  from handleSendMessage_failed [OF assms(3) this assms(4,5)]
  show ?thesis by (simp add: errorMessage_def)
qed

lemma ordinary_query:
  "\<not> list_ex (\<lambda>keyword. js_includes (toLowerCase failingEnv (ascii ''opening hours?'')) keyword)
      CRISIS_KEYWORDS"
  "generateContent failingEnv (trace chatting) (queryParameters demoStore (ascii ''opening hours?''))
      = Inl unavailable"
proof -
  have l: "toLowerCase failingEnv (ascii ''opening hours?'') = ascii ''opening hours?''"
    by (simp add: failingEnv_def demoEnv_fields asciiLower_def ascii_def)
  show "\<not> list_ex (\<lambda>keyword. js_includes (toLowerCase failingEnv (ascii ''opening hours?'')) keyword)
      CRISIS_KEYWORDS"
    unfolding l by (simp add: CRISIS_KEYWORDS_def ascii_def)
  show "generateContent failingEnv (trace chatting)
      (queryParameters demoStore (ascii ''opening hours?'')) = Inl unavailable"
    by (simp add: failingEnv_def)
qed

theorem C3_witness:
  "reachable chatting \<and> status (app chatting) = Chatting
   \<and> activeRagStoreName (app chatting) = Some demoStore
   \<and> generateContent failingEnv (trace chatting)
        (queryParameters demoStore (ascii ''opening hours?'')) = Inl unavailable
   \<and> chatHistory (app afterFailedQuery)
       = [welcomeMessage (ascii ''Chen''), userMessage (ascii ''opening hours?''), errorMessage]
   \<and> status (app afterFailedQuery) = Error
   \<and> error (app afterFailedQuery)
       = Some (MSG_QUERY_FAILED @ ascii '': 503 Service Unavailable'')"
  using C3_failed_query_appends_apology_and_enters_error
    [OF reachable_chatting chatting_eval(1,2) ordinary_query]
    reachable_chatting chatting_eval ordinary_query(2)
  by (simp add: afterFailedQuery_def isTruthy_def errorText_def unavailable_def ascii_def)

theorem C3_counterexample:
  "status (app chatting) = Chatting \<and> error (app chatting) = None
   \<and> generateContent failingEnv (trace chatting)
        (queryParameters demoStore (ascii ''opening hours?'')) = Inl unavailable
   \<and> status (app (handleSendMessage failingEnv (ascii ''opening hours?'') chatting)) = Error
   \<and> status (app (handleSendMessage failingEnv (ascii ''opening hours?'') chatting)) \<noteq> Chatting
   \<and> error (app (handleSendMessage failingEnv (ascii ''opening hours?'') chatting)) \<noteq> None"
  using handleSendMessage_failed
    [OF chatting_eval(2) demoStore_nonempty chatting_eval(3) ordinary_query]
    chatting_eval ordinary_query(2)
  by simp

text \<open>
  Claim C5. Ending the chat from the chat screen: the deletion of the active store is
  requested exactly once, the active store, the history, the example questions, the
  document label and the pending files are cleared and the status is Welcome, whatever
  the remote side answers to the deletion; the cells of the application after the
  handler do not depend on the remote side at all.
\<close>

theorem C5_end_chat_deletes_once_and_clears:
  assumes "reachable w" "status (app w) = Chatting"
  shows "(\<exists>n. activeRagStoreName (app w) = Some n
            \<and> deleteCalls (added w (handleEndChat env w)) = [n])
    \<and> activeRagStoreName (app (handleEndChat env w)) = None
    \<and> chatHistory (app (handleEndChat env w)) = []
    \<and> exampleQuestions (app (handleEndChat env w)) = []
    \<and> documentName (app (handleEndChat env w)) = []
    \<and> files (app (handleEndChat env w)) = []
    \<and> status (app (handleEndChat env w)) = Welcome
    \<and> app (handleEndChat env w) = app (handleEndChat env' w)"
proof -
  from reachable_active_store [OF assms(1)] assms(2)
  obtain n where n: "activeRagStoreName (app w) = Some n" "n \<noteq> []" and a: "ai w"
    by (auto simp: truthyName_def split: option.splits)
  from handleEndChat_trace [OF n a] n(1)
  have "\<exists>n. activeRagStoreName (app w) = Some n
            \<and> deleteCalls (added w (handleEndChat env w)) = [n]"
    by simp
  then show ?thesis by (simp add: handleEndChat_fields handleEndChat_app)
qed

theorem C5_witness:
  "reachable chatting \<and> status (app chatting) = Chatting
   \<and> fileSearchStoresDelete deleteFailsEnv (trace chatting) demoStore = Some unavailable
   \<and> deleteCalls (added chatting (handleEndChat deleteFailsEnv chatting)) = [demoStore]
   \<and> activeRagStoreName (app (handleEndChat deleteFailsEnv chatting)) = None
   \<and> chatHistory (app (handleEndChat deleteFailsEnv chatting)) = []
   \<and> status (app (handleEndChat deleteFailsEnv chatting)) = Welcome"
  using C5_end_chat_deletes_once_and_clears [OF reachable_chatting chatting_eval(1), of deleteFailsEnv]
    reachable_chatting chatting_eval
  by (simp add: deleteFailsEnv_def)

text \<open>
  Claim C4, as the code has it. A setup run that completes with \<open>N\<close> pending files issues
  exactly \<open>N\<close> upload requests, one per file in the order of the array and all to the new
  store, and the progress is set to the number of the file before the file is uploaded.
  The values of \<open>progress.current\<close> set during the run are 0, 1, then the index plus one
  before each upload (1 to \<open>N\<close>), then \<open>N + 1\<close> and \<open>N + 2\<close>: they never decrease, run from 0
  to \<open>N + 2\<close>, and the value 1 is set twice in a row. \<open>progress.total\<close> is \<open>N + 2\<close> in every
  update that is not \<open>null\<close>, and the last update is \<open>null\<close>. A run that does not complete
  has uploaded, in the order of the array, the first files of the array.
\<close>

theorem C4_completed_setup_uploads_and_progress:
  "(handleAdminSetupComplete env w = (w', Resolved) \<longrightarrow>
      (\<exists>n. activeRagStoreName (app w') = Some n
            \<and> uploadCalls (added w w') = map (Pair n) (files (app w)))
      \<and> length (uploadCalls (added w w')) = length (files (app w))
      \<and> milestones (added w w')
          = [Shown 0, Shown 1] @ fileMilestones 0 (files (app w))
            @ [Shown (length (files (app w)) + 1), Shown (length (files (app w)) + 2)]
      \<and> currents (added w w')
          = [0, 1] @ [1 ..< Suc (length (files (app w)))]
            @ [length (files (app w)) + 1, length (files (app w)) + 2]
      \<and> sorted (currents (added w w'))
      \<and> totals (added w w') = replicate (length (files (app w)) + 4) (length (files (app w)) + 2)
      \<and> last (progressUpdates (added w w')) = None)
   \<and> (handleAdminSetupComplete env w = (w', c) \<longrightarrow>
      (\<exists>n k. k \<le> length (files (app w))
         \<and> uploadCalls (added w w') = map (Pair n) (take k (files (app w)))))"
proof -
  have a: "(\<exists>n. activeRagStoreName (app w') = Some n
            \<and> uploadCalls (added w w') = map (Pair n) (files (app w)))
      \<and> length (uploadCalls (added w w')) = length (files (app w))
      \<and> milestones (added w w')
          = [Shown 0, Shown 1] @ fileMilestones 0 (files (app w))
            @ [Shown (length (files (app w)) + 1), Shown (length (files (app w)) + 2)]
      \<and> currents (added w w')
          = [0, 1] @ [1 ..< Suc (length (files (app w)))]
            @ [length (files (app w)) + 1, length (files (app w)) + 2]
      \<and> sorted (currents (added w w'))
      \<and> totals (added w w') = replicate (length (files (app w)) + 4) (length (files (app w)) + 2)
      \<and> last (progressUpdates (added w w')) = None"
    if r: "handleAdminSetupComplete env w = (w', Resolved)"
  proof -
    note o = completed_setup_observations [OF r]
    from o(1) have l: "length (uploadCalls (added w w')) = length (files (app w))" by auto
    have s: "sorted (currents (added w w'))"
      unfolding o(2) by (auto simp: sorted_append)
    from o(1) l o(5) o(2) s o(3) o(4) show ?thesis by blast
  qed
  have b: "\<exists>n k. k \<le> length (files (app w))
         \<and> uploadCalls (added w w') = map (Pair n) (take k (files (app w)))"
    if "handleAdminSetupComplete env w = (w', c)"
    using that by (rule setup_uploads_prefix)
  from a b show ?thesis by blast
qed

lemma completed_demo_setup: "handleAdminSetupComplete demoEnv welcomed = (bound, Resolved)"
  using setup_eval(1) by (simp add: bound_def prod_eq_iff)

lemma welcomed_fields: "files (app welcomed) = [demoFile]" "trace welcomed = []"
  by (simp_all add: welcomed_eval)

theorem C4_witness:
  "handleAdminSetupComplete demoEnv welcomed = (bound, Resolved)
   \<and> files (app welcomed) = [demoFile]
   \<and> uploadCalls (trace bound) = [(demoStore, demoFile)]
   \<and> milestones (trace bound) = [Shown 0, Shown 1, Shown 1, Uploaded demoFile, Shown 2, Shown 3]
   \<and> currents (trace bound) = [0, 1, 1, 2, 3]
   \<and> totals (trace bound) = [3, 3, 3, 3, 3]"
proof -
  have a: "added welcomed bound = trace bound"
    by (simp add: added_def welcomed_fields)
  from C4_completed_setup_uploads_and_progress [of demoEnv welcomed bound Resolved]
    completed_demo_setup setup_eval(3)
  show ?thesis
    unfolding a by (simp add: welcomed_fields numeral_eq_Suc)
qed

theorem C4_counterexample:
  "handleAdminSetupComplete demoEnv welcomed = (bound, Resolved)
   \<and> length (files (app welcomed)) = 1
   \<and> currents (added welcomed bound) = [0, 1, 1, 2, 3]
   \<and> currents (added welcomed bound) \<noteq> [1, 2]
   \<and> \<not> sorted_wrt (<) (currents (added welcomed bound))"
proof -
  from completed_setup_observations(2) [OF completed_demo_setup]
  have "currents (added welcomed bound) = [0, 1, 1, 2, 3]"
    by (simp add: welcomed_fields)
  with completed_demo_setup show ?thesis by (simp add: welcomed_fields)
qed

text \<open>
  Claim C6. A failure of the provisioning sequence, which runs with status Uploading, is
  classified by its lower-cased message. If the message contains "api key not valid" or
  "requested entity was not found", the status becomes Welcome, the key-selected flag is
  cleared, the inline key error is set and the error text of the error screen stays as it
  was; otherwise the status becomes Error with the error text set. In both cases the
  progress is cleared.
\<close>

theorem C6_provisioning_failure_is_classified:
  assumes "isApiKeySelected (app w)" "newGoogleGenAI env = None"
    and "handleAdminSetupComplete env w = (w', Rejected err)"
  shows "(\<exists>w1 w2. initialize env (setApiKeyError None w) = (w1, None)
            \<and> provision env (files (app w)) (beginUpload (files (app w)) w1) = (w2, Rejected err)
            \<and> status (app w2) = Uploading)
    \<and> (isInvalidKey env err \<longleftrightarrow>
          (\<exists>pre post. toLowerCase env (errorText err) = pre @ ascii ''api key not valid'' @ post)
          \<or> (\<exists>pre post. toLowerCase env (errorText err)
                = pre @ ascii ''requested entity was not found'' @ post))
    \<and> (if isInvalidKey env err
        then status (app w') = Welcome \<and> \<not> isApiKeySelected (app w')
             \<and> apiKeyError (app w') = Some MSG_KEY_INVALID \<and> error (app w') = error (app w)
        else status (app w') = Error
             \<and> error (app w')
                 = Some (MSG_START_FAILED @ (if isTruthy err then ascii '': '' @ errorText err else []))
             \<and> isApiKeySelected (app w'))
    \<and> uploadProgress (app w') = None"
proof -
  from assms obtain w1 w2 where
      i: "initialize env (setApiKeyError None w) = (w1, None)"
    and p: "provision env (files (app w)) (beginUpload (files (app w)) w1) = (w2, Rejected err)"
    and s: "status (app w2) = Uploading" "isApiKeySelected (app w2)" "apiKeyError (app w2) = None"
      "error (app w2) = error (app w)"
    and w': "w' = setUploadProgress None (provisionFailed env err w2)"
    by (rule handleAdminSetupComplete_rejected)
  have "\<exists>w1 w2. initialize env (setApiKeyError None w) = (w1, None)
            \<and> provision env (files (app w)) (beginUpload (files (app w)) w1) = (w2, Rejected err)
            \<and> status (app w2) = Uploading"
    using i p s(1) by blast
  moreover have "isInvalidKey env err \<longleftrightarrow>
          (\<exists>pre post. toLowerCase env (errorText err) = pre @ ascii ''api key not valid'' @ post)
          \<or> (\<exists>pre post. toLowerCase env (errorText err)
                = pre @ ascii ''requested entity was not found'' @ post)"
    by (simp add: isInvalidKey_def Let_def js_includes_iff)
  moreover have "if isInvalidKey env err
        then status (app w') = Welcome \<and> \<not> isApiKeySelected (app w')
             \<and> apiKeyError (app w') = Some MSG_KEY_INVALID \<and> error (app w') = error (app w)
        else status (app w') = Error
             \<and> error (app w')
                 = Some (MSG_START_FAILED @ (if isTruthy err then ascii '': '' @ errorText err else []))
             \<and> isApiKeySelected (app w')"
    using s by (simp add: w' provisionFailed_def handleError_def setters)
  moreover have "uploadProgress (app w') = None" by (simp add: w' setters)
  ultimately show ?thesis by blast
qed

lemma rejected_setups:
  "handleAdminSetupComplete invalidKeyEnv welcomed
     = (fst (handleAdminSetupComplete invalidKeyEnv welcomed), Rejected invalidKey)"
  "handleAdminSetupComplete createFailsEnv welcomed
     = (fst (handleAdminSetupComplete createFailsEnv welcomed), Rejected unavailable)"
  by (simp_all add: prod_eq_iff invalidKeyEnv_def createFailsEnv_def welcomed_eval handler_eval
      service_eval demoEnv_fields setters Let_def)

lemma classified:
  "isInvalidKey invalidKeyEnv invalidKey" "\<not> isInvalidKey createFailsEnv unavailable"
  by (simp_all add: isInvalidKey_def invalidKeyEnv_def createFailsEnv_def demoEnv_fields
      asciiLower_def invalidKey_def unavailable_def errorText_def ascii_def Let_def)

theorem C6_witness:
  "isApiKeySelected (app welcomed) \<and> newGoogleGenAI invalidKeyEnv = None
   \<and> newGoogleGenAI createFailsEnv = None
   \<and> snd (handleAdminSetupComplete invalidKeyEnv welcomed) = Rejected invalidKey
   \<and> isInvalidKey invalidKeyEnv invalidKey
   \<and> status (app (fst (handleAdminSetupComplete invalidKeyEnv welcomed))) = Welcome
   \<and> \<not> isApiKeySelected (app (fst (handleAdminSetupComplete invalidKeyEnv welcomed)))
   \<and> apiKeyError (app (fst (handleAdminSetupComplete invalidKeyEnv welcomed))) = Some MSG_KEY_INVALID
   \<and> error (app (fst (handleAdminSetupComplete invalidKeyEnv welcomed))) = None
   \<and> snd (handleAdminSetupComplete createFailsEnv welcomed) = Rejected unavailable
   \<and> \<not> isInvalidKey createFailsEnv unavailable
   \<and> status (app (fst (handleAdminSetupComplete createFailsEnv welcomed))) = Error"
proof -
  have k: "isApiKeySelected (app welcomed)" "error (app welcomed) = None"
    by (simp_all add: welcomed_eval)
  have g: "newGoogleGenAI invalidKeyEnv = None" "newGoogleGenAI createFailsEnv = None"
    by (simp_all add: invalidKeyEnv_def createFailsEnv_def demoEnv_fields)
  from C6_provisioning_failure_is_classified [OF k(1) g(1) rejected_setups(1)]
    C6_provisioning_failure_is_classified [OF k(1) g(2) rejected_setups(2)]
    classified k g rejected_setups
  show ?thesis by (simp add: prod_eq_iff)
qed





end
